theory Spec2Isabelle
  imports Complex_Main "HOL-Library.AList"
begin

section \<open>Values, errors and Python primitives\<close>

text \<open>
  The framework is Python 3 code (pyafai: \<^verbatim>\<open>core.py\<close>, \<^verbatim>\<open>objects.py\<close>,
  \<^verbatim>\<open>influence.py\<close>).  Numbers held in coordinates and map cells are Python ints or
  floats; both are modelled as \<^typ>\<open>real\<close>, which is exact for the comparisons,
  assignments, rounding and modulo the code performs on them.  The angle of an object
  goes through two loops whose termination depends on the arithmetic, so an angle is a
  \<open>number\<close>, an int or a float with its rounding (below).  Objects and agents are
  mutable and shared by reference, so they live in a store indexed by their identity.
  An exception is a value of \<open>error\<close>; every function that can raise returns
  \<open>error + 'a\<close>.  \<open>NoReturn\<close> is not an exception: it is the outcome of a call that
  never returns, because a loop in it runs forever.  Nothing in the framework catches
  an exception, so both end everything that was to follow in the same way.
\<close>

datatype error = IndexError | ValueError | AttributeError | ZeroDivisionError | NoReturn

type_synonym oid = nat
type_synonym aid = nat

text \<open>Python 3 \<^verbatim>\<open>round(x)\<close> with one argument: the nearest integer, ties to even.\<close>

definition py_round :: "real \<Rightarrow> int" where
  "py_round v =
     (let f = \<lfloor>v\<rfloor>; d = v - of_int f
      in if d < 1 / 2 then f
         else if 1 / 2 < d then f + 1
         else if even f then f else f + 1)"

text \<open>
  Python list indexing \<^verbatim>\<open>xs[i]\<close> with an int index on a list of length \<open>n\<close>: a negative
  index counts from the end, anything outside \<open>[-n, n)\<close> raises IndexError.
\<close>

definition py_index :: "nat \<Rightarrow> int \<Rightarrow> error + nat" where
  "py_index n i =
     (if 0 \<le> i \<and> i < int n then Inr (nat i)
      else if i < 0 \<and> - int n \<le> i then Inr (nat (int n + i))
      else Inl IndexError)"

text \<open>
  A Python number: an int, which is exact and unbounded, or a float, which is an IEEE
  754 double.  \<open>fl\<close> rounds a real to the nearest double, ties to the even mantissa:
  for \<open>2\<^sup>e \<le> |v| < 2\<^sup>e\<^sup>+\<^sup>1\<close> the doubles are the multiples of \<open>2\<^sup>e\<^sup>-\<^sup>5\<^sup>2\<close>.  The range of
  the exponent is not bounded here: overflow to \<^verbatim>\<open>inf\<close> and the subnormal numbers are
  left out, and neither changes the result of adding 360 to a negative double or of
  subtracting 360 from a double above 360.  An operation on two ints is exact; with a
  float operand the int is converted, and the exact result is rounded.
\<close>

datatype number = PyInt int | PyFloat real

fun num_val :: "number \<Rightarrow> real" where
  "num_val (PyInt i) = of_int i"
| "num_val (PyFloat r) = r"

definition fl :: "real \<Rightarrow> real" where
  "fl v =
     (if v = 0 then 0
      else (let u = 2 powr (of_int \<lfloor>log 2 \<bar>v\<bar>\<rfloor> - 52)
            in u * of_int (py_round (v / u))))"

fun as_float :: "number \<Rightarrow> real" where
  "as_float (PyInt i) = fl (of_int i)"
| "as_float (PyFloat r) = r"

fun num_add :: "number \<Rightarrow> number \<Rightarrow> number" where
  "num_add (PyInt i) (PyInt j) = PyInt (i + j)"
| "num_add a b = PyFloat (fl (as_float a + as_float b))"

fun num_sub :: "number \<Rightarrow> number \<Rightarrow> number" where
  "num_sub (PyInt i) (PyInt j) = PyInt (i - j)"
| "num_sub a b = PyFloat (fl (as_float a - as_float b))"

section \<open>Object (core.py) and SimplePhysicsObject (objects.py)\<close>

text \<open>
  \<open>obj_class\<close> is the dynamic class of an object: \<open>PlainObject\<close> is \<^verbatim>\<open>Object\<close>,
  \<open>SimplePhysicsObject\<close> the subclass of \<^verbatim>\<open>objects.py\<close>, \<open>UserObject\<close> any other
  subclass that overrides \<^verbatim>\<open>update\<close> (its body is the \<open>user_update\<close> of the hooks
  below).  The physics fields are only used by \<open>SimplePhysicsObject\<close>.
\<close>

datatype obj_class = PlainObject | SimplePhysicsObject | UserObject

record Object =
  obj_x :: real
  obj_y :: real
  obj_angle :: number
  is_body :: bool
  obj_agent :: "aid option"
  obj_class :: obj_class
  vel :: real
  velx :: real
  vely :: real
  ang_vel :: real

definition Object_init :: "real \<Rightarrow> real \<Rightarrow> number \<Rightarrow> Object" where
  "Object_init px py a =
     \<lparr>obj_x = px, obj_y = py, obj_angle = a, is_body = False, obj_agent = None,
      obj_class = PlainObject, vel = 0, velx = 0, vely = 0, ang_vel = 0\<rparr>"

definition SimplePhysicsObject_init :: "real \<Rightarrow> real \<Rightarrow> number \<Rightarrow> Object" where
  "SimplePhysicsObject_init px py a = (Object_init px py a)\<lparr>obj_class := SimplePhysicsObject\<rparr>"

text \<open>The \<^verbatim>\<open>agent\<close> property setter of \<^verbatim>\<open>Object\<close>.\<close>

definition Object_set_agent :: "aid option \<Rightarrow> Object \<Rightarrow> Object" where
  "Object_set_agent ag ob =
     (case ag of
        None \<Rightarrow> ob\<lparr>is_body := False, obj_agent := None\<rparr>
      | Some a \<Rightarrow> ob\<lparr>is_body := True, obj_agent := Some a\<rparr>)"

definition Object_move_to :: "real \<Rightarrow> real \<Rightarrow> Object \<Rightarrow> Object" where
  "Object_move_to px py ob = ob\<lparr>obj_x := px, obj_y := py\<rparr>"

definition Object_translate :: "real \<Rightarrow> real \<Rightarrow> Object \<Rightarrow> Object" where
  "Object_translate tx ty ob = ob\<lparr>obj_x := obj_x ob + tx, obj_y := obj_y ob + ty\<rparr>"

text \<open>
  The two normalisation loops of the \<^verbatim>\<open>angle\<close> setter:
  \<^verbatim>\<open>while value > 360: value -= 360\<close> and \<^verbatim>\<open>while value < 0: value += 360\<close>.
  Either may run forever; the result is then \<open>None\<close>.
\<close>

partial_function (option) norm_down :: "number \<Rightarrow> number option" where
  "norm_down v = (if 360 < num_val v then norm_down (num_sub v (PyInt 360)) else Some v)"

partial_function (option) norm_up :: "number \<Rightarrow> number option" where
  "norm_up v = (if num_val v < 0 then norm_up (num_add v (PyInt 360)) else Some v)"

definition normalize_angle :: "number \<Rightarrow> number option" where
  "normalize_angle v = (case norm_down v of None \<Rightarrow> None | Some v1 \<Rightarrow> norm_up v1)"

definition DEG2RAD :: real where
  "DEG2RAD = pi / 180"

text \<open>The \<^verbatim>\<open>velocity\<close> setter of \<^verbatim>\<open>SimplePhysicsObject\<close>.\<close>

definition set_velocity :: "real \<Rightarrow> Object \<Rightarrow> Object" where
  "set_velocity v ob =
     ob\<lparr>velx := v * cos (num_val (obj_angle ob) * DEG2RAD),
        vely := v * sin (num_val (obj_angle ob) * DEG2RAD),
        vel := v\<rparr>"

text \<open>
  Assignment \<^verbatim>\<open>obj.angle = value\<close>, dispatched on the class: the setter of
  \<^verbatim>\<open>SimplePhysicsObject\<close> also recomputes the velocity components.  The result is
  \<open>None\<close> when the assignment does not return.
\<close>

definition Object_set_angle :: "number \<Rightarrow> Object \<Rightarrow> Object option" where
  "Object_set_angle v ob =
     (case normalize_angle v of
        None \<Rightarrow> None
      | Some a \<Rightarrow>
          (let ob' = ob\<lparr>obj_angle := a\<rparr>
           in Some (if obj_class ob = SimplePhysicsObject then set_velocity (vel ob') ob'
                    else ob')))"

definition Object_rotate :: "number \<Rightarrow> Object \<Rightarrow> Object option" where
  "Object_rotate a ob = Object_set_angle (num_add (obj_angle ob) a) ob"

text \<open>
  \<^verbatim>\<open>SimplePhysicsObject.update\<close>; \<^verbatim>\<open>_ang_vel\<close> and \<open>delta\<close> are floats, and so is their
  product.
\<close>

definition SimplePhysicsObject_update :: "real \<Rightarrow> Object \<Rightarrow> Object option" where
  "SimplePhysicsObject_update delta ob =
     (case (if ang_vel ob \<noteq> 0
            then Object_set_angle (num_add (obj_angle ob) (PyFloat (fl (ang_vel ob * delta)))) ob
            else Some ob) of
        None \<Rightarrow> None
      | Some ob1 \<Rightarrow> Some (ob1\<lparr>obj_x := obj_x ob1 + velx ob1 * delta,
                              obj_y := obj_y ob1 + vely ob1 * delta\<rparr>))"

section \<open>Agent, Perception and Action (core.py)\<close>

datatype Perception = Perception (perception_name: string) (perception_id: nat)

datatype Action = Action (action_name: string) (action_id: nat)

text \<open>
  \<^verbatim>\<open>_actions\<close> and \<^verbatim>\<open>_perceptions\<close> are dicts keyed by name; iteration follows insertion
  order, so they are association lists.  \<open>has_world\<close> is the \<^verbatim>\<open>world\<close> attribute
  (\<open>False\<close> for \<^verbatim>\<open>None\<close>).
\<close>

record Agent =
  keep_body_on_death :: bool
  body :: "oid option"
  actions :: "(string \<times> Action) list"
  perceptions :: "(string \<times> Perception) list"
  has_world :: bool
  dead :: bool

definition Agent_init :: Agent where
  "Agent_init =
     \<lparr>keep_body_on_death = False, body = None, actions = [], perceptions = [],
      has_world = False, dead = False\<rparr>"

text \<open>
  The store: every object and agent by identity, and the console that \<^verbatim>\<open>print\<close>
  writes to.
\<close>

record store =
  objs :: "oid \<Rightarrow> Object"
  ags :: "aid \<Rightarrow> Agent"
  console :: "string list"

definition print :: "string \<Rightarrow> store \<Rightarrow> store" where
  "print msg s = s\<lparr>console := console s @ [msg]\<rparr>"

definition upd_obj :: "oid \<Rightarrow> (Object \<Rightarrow> Object) \<Rightarrow> store \<Rightarrow> store" where
  "upd_obj ob f s = s\<lparr>objs := (objs s)(ob := f (objs s ob))\<rparr>"

definition upd_agent :: "aid \<Rightarrow> (Agent \<Rightarrow> Agent) \<Rightarrow> store \<Rightarrow> store" where
  "upd_agent a f s = s\<lparr>ags := (ags s)(a := f (ags s a))\<rparr>"

text \<open>The \<^verbatim>\<open>body\<close> property setter of \<^verbatim>\<open>Agent\<close>.\<close>

definition Agent_set_body :: "aid \<Rightarrow> oid option \<Rightarrow> store \<Rightarrow> store" where
  "Agent_set_body a v s =
     (let s1 = upd_agent a (\<lambda>ag. ag\<lparr>body := v\<rparr>) s
      in case v of
           None \<Rightarrow> s1
         | Some ob \<Rightarrow> upd_obj ob (Object_set_agent (Some a)) s1)"

definition add_perception :: "aid \<Rightarrow> Perception \<Rightarrow> store \<Rightarrow> store" where
  "add_perception a p =
     upd_agent a (\<lambda>ag. ag\<lparr>perceptions := AList.update (perception_name p) p (perceptions ag)\<rparr>)"

definition add_action :: "aid \<Rightarrow> Action \<Rightarrow> store \<Rightarrow> store" where
  "add_action a act =
     upd_agent a (\<lambda>ag. ag\<lparr>actions := AList.update (action_name act) act (actions ag)\<rparr>)"

definition kill :: "aid \<Rightarrow> store \<Rightarrow> store" where
  "kill a s =
     (if \<not> dead (ags s a) then upd_agent a (\<lambda>ag. ag\<lparr>dead := True\<rparr>) s
      else print ''Warning: Trying to kill an already dead agent!'' s)"

text \<open>
  The methods a user of the framework overrides: \<^verbatim>\<open>Perception.update(agent)\<close>,
  \<^verbatim>\<open>Agent._think(delta)\<close> (the list of actions it returns; \<^verbatim>\<open>None\<close> is the empty list),
  \<^verbatim>\<open>Action.execute(agent)\<close> and the \<^verbatim>\<open>update(delta)\<close> of \<^verbatim>\<open>Object\<close> subclasses.  They
  may read and change any object or agent of the store; they do not add to or remove
  from the lists of the world while a tick runs.
\<close>

record hooks =
  perceive :: "Perception \<Rightarrow> aid \<Rightarrow> store \<Rightarrow> store"
  think :: "aid \<Rightarrow> real \<Rightarrow> store \<Rightarrow> Action list \<times> store"
  execute :: "Action \<Rightarrow> aid \<Rightarrow> store \<Rightarrow> store"
  user_update :: "real \<Rightarrow> oid \<Rightarrow> store \<Rightarrow> store"

text \<open>The methods as the base classes define them: all of them do nothing.\<close>

definition base_hooks :: hooks where
  "base_hooks =
     \<lparr>perceive = (\<lambda>p a s. s), think = (\<lambda>a delta s. ([], s)),
      execute = (\<lambda>act a s. s), user_update = (\<lambda>delta ob s. s)\<rparr>"

text \<open>
  \<^verbatim>\<open>obj.update(delta)\<close>, dispatched on the class of the object: \<^verbatim>\<open>Object.update\<close> does
  nothing, \<^verbatim>\<open>SimplePhysicsObject.update\<close> changes its own object, the method of a user
  subclass is any code.
\<close>

definition Object_update :: "hooks \<Rightarrow> real \<Rightarrow> oid \<Rightarrow> store \<Rightarrow> error + store" where
  "Object_update h delta ob s =
     (case obj_class (objs s ob) of
        PlainObject \<Rightarrow> Inr s
      | SimplePhysicsObject \<Rightarrow>
          (case SimplePhysicsObject_update delta (objs s ob) of
             None \<Rightarrow> Inl NoReturn
           | Some o' \<Rightarrow> Inr (upd_obj ob (\<lambda>_. o') s))
      | UserObject \<Rightarrow> Inr (user_update h delta ob s))"

text \<open>
  The calls made during a tick are recorded in a trace, which the code does not have:
  it is there to state in which order and how often the methods are called.
\<close>

datatype event = EvUpdate aid | EvPerceive aid Perception | EvExecute aid Action

section \<open>World (core.py)\<close>

record World =
  st :: store
  agents :: "aid list"
  dead_agents :: "aid list"
  objects :: "oid list"
  paused :: bool
  trace :: "event list"

definition World_init :: "store \<Rightarrow> World" where
  "World_init s =
     \<lparr>st = s, agents = [], dead_agents = [], objects = [], paused = True, trace = []\<rparr>"

text \<open>A for loop whose body may raise: the first exception ends it.\<close>

fun efold :: "('a \<Rightarrow> 's \<Rightarrow> error + 's) \<Rightarrow> 'a list \<Rightarrow> 's \<Rightarrow> error + 's" where
  "efold f [] s = Inr s"
| "efold f (v # vs) s = (case f v s of Inl e \<Rightarrow> Inl e | Inr s' \<Rightarrow> efold f vs s')"

text \<open>
  \<^verbatim>\<open>add_object\<close> and \<^verbatim>\<open>add_agent\<close> first test \<^verbatim>\<open>isinstance\<close>; every identity of the
  store is an \<^verbatim>\<open>Object\<close> or an \<^verbatim>\<open>Agent\<close>, so the branch that only prints a message is
  not reached.  Neither method looks whether its argument is already in the list.
\<close>

definition World_add_object :: "oid \<Rightarrow> 'a World_scheme \<Rightarrow> 'a World_scheme" where
  "World_add_object ob w = w\<lparr>objects := objects w @ [ob]\<rparr>"

text \<open>
  The message of \<^verbatim>\<open>remove_object\<close>: the string literal is continued on the next line
  of the source with a backslash, so the indentation of that line is part of it.
\<close>

definition remove_object_warning :: string where
  "remove_object_warning =
     ''Trying to remove an object that is not present in the ''
     @ ''            world, or is the body of an agent!''"

definition World_remove_object :: "oid \<Rightarrow> 'a World_scheme \<Rightarrow> 'a World_scheme" where
  "World_remove_object ob w =
     (if \<not> is_body (objs (st w) ob) \<and> ob \<in> set (objects w)
      then w\<lparr>objects := remove1 ob (objects w)\<rparr>
      else w\<lparr>st := print remove_object_warning (st w)\<rparr>)"

text \<open>
  \<^verbatim>\<open>add_agent\<close> calls \<^verbatim>\<open>self.add_object\<close>, which \<^verbatim>\<open>World2DGrid\<close> overrides: the method
  is the parameter \<open>addo\<close>.
\<close>

definition World_add_agent ::
  "(oid \<Rightarrow> 'a World_scheme \<Rightarrow> error + 'a World_scheme) \<Rightarrow> aid \<Rightarrow> 'a World_scheme
   \<Rightarrow> error + 'a World_scheme" where
  "World_add_agent addo a w =
     (let w1 = w\<lparr>st := upd_agent a (\<lambda>ag. ag\<lparr>has_world := True\<rparr>) (st w),
                 agents := agents w @ [a]\<rparr>
      in case body (ags (st w1) a) of
           None \<Rightarrow> Inr w1
         | Some b \<Rightarrow> addo b w1)"

definition World_remove_agent :: "aid \<Rightarrow> 'a World_scheme \<Rightarrow> 'a World_scheme" where
  "World_remove_agent a w =
     (if a \<in> set (agents w)
      then w\<lparr>st := upd_agent a (\<lambda>ag. ag\<lparr>has_world := False\<rparr>) (st w),
             agents := remove1 a (agents w)\<rparr>
      else w\<lparr>st := print ''Warning: Trying to remove an agent that is not in the list.'' (st w)\<rparr>)"

definition pause_toggle :: "'a World_scheme \<Rightarrow> 'a World_scheme" where
  "pause_toggle w = w\<lparr>paused := \<not> paused w\<rparr>"

text \<open>
  \<^verbatim>\<open>Agent.update(delta)\<close>: \<^verbatim>\<open>_update_perceptions\<close> over the values of the dict, then
  \<^verbatim>\<open>_think\<close>, then every action it returned.
\<close>

definition update_perceptions :: "hooks \<Rightarrow> aid \<Rightarrow> 'a World_scheme \<Rightarrow> 'a World_scheme" where
  "update_perceptions h a w =
     fold (\<lambda>p w'. w'\<lparr>st := perceive h p a (st w'), trace := trace w' @ [EvPerceive a p]\<rparr>)
          (map snd (perceptions (ags (st w) a))) w"

definition Agent_update :: "hooks \<Rightarrow> real \<Rightarrow> aid \<Rightarrow> 'a World_scheme \<Rightarrow> 'a World_scheme" where
  "Agent_update h delta a w =
     (let w0 = w\<lparr>trace := trace w @ [EvUpdate a]\<rparr>;
          w1 = update_perceptions h a w0;
          (acts, s2) = think h a delta (st w1);
          w2 = w1\<lparr>st := s2\<rparr>
      in fold (\<lambda>act w'. w'\<lparr>st := execute h act a (st w'), trace := trace w' @ [EvExecute a act]\<rparr>)
              acts w2)"

definition World_process_agents :: "hooks \<Rightarrow> real \<Rightarrow> 'a World_scheme \<Rightarrow> 'a World_scheme" where
  "World_process_agents h delta w =
     fold (\<lambda>a w'. if \<not> dead (ags (st w') a) then Agent_update h delta a w'
                   else w'\<lparr>dead_agents := dead_agents w' @ [a]\<rparr>)
          (agents w) w"

text \<open>
  \<^verbatim>\<open>_remove_dead_agents\<close>; \<^verbatim>\<open>self.remove_object\<close> is the parameter \<open>rmo\<close>.  With
  \<^verbatim>\<open>a.body\<close> being \<^verbatim>\<open>None\<close>, the statement \<^verbatim>\<open>body.agent = None\<close> raises AttributeError.
\<close>

definition remove_dead_agent ::
  "(oid \<Rightarrow> 'a World_scheme \<Rightarrow> error + 'a World_scheme) \<Rightarrow> aid \<Rightarrow> 'a World_scheme
   \<Rightarrow> error + 'a World_scheme" where
  "remove_dead_agent rmo a w =
     (let w1 = World_remove_agent a w
      in case body (ags (st w1) a) of
           None \<Rightarrow> Inl AttributeError
         | Some b \<Rightarrow>
             (let w2 = w1\<lparr>st := upd_obj b (Object_set_agent None)
                                   (Agent_set_body a None (st w1))\<rparr>
              in if \<not> keep_body_on_death (ags (st w2) a) then rmo b w2 else Inr w2))"

definition World_remove_dead_agents ::
  "(oid \<Rightarrow> 'a World_scheme \<Rightarrow> error + 'a World_scheme) \<Rightarrow> 'a World_scheme
   \<Rightarrow> error + 'a World_scheme" where
  "World_remove_dead_agents rmo w =
     (case efold (remove_dead_agent rmo) (dead_agents w) w of
        Inl e \<Rightarrow> Inl e
      | Inr w' \<Rightarrow> Inr (w'\<lparr>dead_agents := []\<rparr>))"

text \<open>One turn of the loop over \<^verbatim>\<open>self._objects\<close> in \<^verbatim>\<open>World.update\<close>.\<close>

definition World_update_object ::
  "hooks \<Rightarrow> real \<Rightarrow> oid \<Rightarrow> 'a World_scheme \<Rightarrow> error + 'a World_scheme" where
  "World_update_object h delta ob w =
     (case Object_update h delta ob (st w) of
        Inl e \<Rightarrow> Inl e
      | Inr s \<Rightarrow> Inr (w\<lparr>st := s\<rparr>))"

definition World_update :: "hooks \<Rightarrow> real \<Rightarrow> 'a World_scheme \<Rightarrow> error + 'a World_scheme" where
  "World_update h delta w =
     (if \<not> paused w then
        (let w1 = World_process_agents h delta w
         in case efold (World_update_object h delta) (objects w1) w1 of
              Inl e \<Rightarrow> Inl e
            | Inr w2 \<Rightarrow> World_remove_dead_agents (\<lambda>ob w'. Inr (World_remove_object ob w')) w2)
      else Inr w)"

section \<open>World2D (core.py)\<close>

record World2D = World +
  width :: real
  height :: real

definition World2D_init :: "store \<Rightarrow> real \<Rightarrow> real \<Rightarrow> World2D" where
  "World2D_init s wd ht =
     \<lparr>st = s, agents = [], dead_agents = [], objects = [], paused = True, trace = [],
      width = wd, height = ht\<rparr>"

text \<open>The four bounds checks of \<^verbatim>\<open>World2D.update\<close>, in the order of the code.\<close>

definition check_bounds :: "real \<Rightarrow> real \<Rightarrow> Object \<Rightarrow> Object" where
  "check_bounds wd ht ob =
     (let ob1 = (if wd < obj_x ob then ob\<lparr>obj_x := wd\<rparr> else ob);
          ob2 = (if ht < obj_y ob1 then ob1\<lparr>obj_y := ht\<rparr> else ob1);
          ob3 = (if obj_x ob2 < 0 then ob2\<lparr>obj_x := 0\<rparr> else ob2)
      in if obj_y ob3 < 0 then ob3\<lparr>obj_y := 0\<rparr> else ob3)"

text \<open>
  One turn of the loop over \<^verbatim>\<open>self._objects\<close> in \<^verbatim>\<open>World2D.update\<close>: the object is
  updated, then its coordinates are checked.
\<close>

definition World2D_update_object ::
  "hooks \<Rightarrow> real \<Rightarrow> oid \<Rightarrow> 'a World2D_scheme \<Rightarrow> error + 'a World2D_scheme" where
  "World2D_update_object h delta ob w =
     (case Object_update h delta ob (st w) of
        Inl e \<Rightarrow> Inl e
      | Inr s \<Rightarrow> Inr (w\<lparr>st := upd_obj ob (check_bounds (width w) (height w)) s\<rparr>))"

definition World2D_update ::
  "hooks \<Rightarrow> real \<Rightarrow> 'a World2D_scheme \<Rightarrow> error + 'a World2D_scheme" where
  "World2D_update h delta w =
     (if \<not> paused w then
        (let w1 = World_process_agents h delta w
         in case efold (World2D_update_object h delta) (objects w1) w1 of
              Inl e \<Rightarrow> Inl e
            | Inr w2 \<Rightarrow> World_remove_dead_agents (\<lambda>ob w'. Inr (World_remove_object ob w')) w2)
      else Inr w)"

section \<open>World2DGrid (core.py)\<close>

text \<open>
  \<open>grid_width\<close> and \<open>grid_height\<close> are \<^verbatim>\<open>_width\<close> and \<^verbatim>\<open>_height\<close>, the numbers of
  columns and lines; \<open>grid\<close> is \<^verbatim>\<open>_grid\<close>, a list of lines, each a list of cells, each
  the list of the objects in that cell.
\<close>

record World2DGrid = World +
  grid_width :: int
  grid_height :: int
  cell :: real
  tor :: bool
  grid :: "oid list list list"

definition World2DGrid_init :: "store \<Rightarrow> int \<Rightarrow> int \<Rightarrow> real \<Rightarrow> bool \<Rightarrow> World2DGrid" where
  "World2DGrid_init s wd ht c t =
     \<lparr>st = s, agents = [], dead_agents = [], objects = [], paused = True, trace = [],
      grid_width = wd, grid_height = ht, cell = c, tor = t,
      grid = replicate (nat ht) (replicate (nat wd) [])\<rparr>"

text \<open>
  The bounds check shared by \<^verbatim>\<open>add_object\<close> and \<^verbatim>\<open>update\<close>: clamping in a closed
  world, wrapping with \<^verbatim>\<open>round(obj.x) % self._width\<close> in a toroidal one (a zero width or
  height makes \<^verbatim>\<open>%\<close> raise).
\<close>

definition grid_check_bounds :: "bool \<Rightarrow> int \<Rightarrow> int \<Rightarrow> Object \<Rightarrow> error + Object" where
  "grid_check_bounds t wd ht ob =
     (if \<not> t then
        (let ob1 = (if of_int wd - 1 < obj_x ob then ob\<lparr>obj_x := of_int wd - 1\<rparr> else ob);
             ob2 = (if of_int ht - 1 < obj_y ob1 then ob1\<lparr>obj_y := of_int ht - 1\<rparr> else ob1);
             ob3 = (if obj_x ob2 < 0 then ob2\<lparr>obj_x := 0\<rparr> else ob2)
         in Inr (if obj_y ob3 < 0 then ob3\<lparr>obj_y := 0\<rparr> else ob3))
      else
        (if (of_int wd - 1 / 2 < obj_x ob \<or> obj_x ob < - (1 / 2)) \<and> wd = 0
         then Inl ZeroDivisionError
         else
           (let ob1 = (if of_int wd - 1 / 2 < obj_x ob \<or> obj_x ob < - (1 / 2)
                       then ob\<lparr>obj_x := of_int (py_round (obj_x ob) mod wd)\<rparr> else ob)
            in if (of_int ht - 1 / 2 < obj_y ob1 \<or> obj_y ob1 < - (1 / 2)) \<and> ht = 0
               then Inl ZeroDivisionError
               else Inr (if of_int ht - 1 / 2 < obj_y ob1 \<or> obj_y ob1 < - (1 / 2)
                         then ob1\<lparr>obj_y := of_int (py_round (obj_y ob1) mod ht)\<rparr>
                         else ob1))))"

text \<open>
  \<^verbatim>\<open>self._grid[i][j].append(obj)\<close> and \<^verbatim>\<open>self._grid[i][j].remove(obj)\<close>: either index
  may be out of range, and \<^verbatim>\<open>remove\<close> raises ValueError when the object is not in the
  cell; it takes out the first occurrence.
\<close>

definition grid_append :: "oid list list list \<Rightarrow> int \<Rightarrow> int \<Rightarrow> oid \<Rightarrow> error + oid list list list" where
  "grid_append g i j ob =
     (case py_index (length g) i of
        Inl e \<Rightarrow> Inl e
      | Inr r \<Rightarrow>
          (case py_index (length (g ! r)) j of
             Inl e \<Rightarrow> Inl e
           | Inr c \<Rightarrow> Inr (g[r := (g ! r)[c := g ! r ! c @ [ob]]])))"

definition grid_remove :: "oid list list list \<Rightarrow> int \<Rightarrow> int \<Rightarrow> oid \<Rightarrow> error + oid list list list" where
  "grid_remove g i j ob =
     (case py_index (length g) i of
        Inl e \<Rightarrow> Inl e
      | Inr r \<Rightarrow>
          (case py_index (length (g ! r)) j of
             Inl e \<Rightarrow> Inl e
           | Inr c \<Rightarrow>
               if ob \<in> set (g ! r ! c)
               then Inr (g[r := (g ! r)[c := remove1 ob (g ! r ! c)]])
               else Inl ValueError))"

text \<open>The two indices \<^verbatim>\<open>round(obj.y)\<close> and \<^verbatim>\<open>round(obj.x)\<close> of an object.\<close>

definition obj_row :: "store \<Rightarrow> oid \<Rightarrow> int" where
  "obj_row s ob = py_round (obj_y (objs s ob))"

definition obj_col :: "store \<Rightarrow> oid \<Rightarrow> int" where
  "obj_col s ob = py_round (obj_x (objs s ob))"

definition World2DGrid_add_object ::
  "oid \<Rightarrow> 'a World2DGrid_scheme \<Rightarrow> error + 'a World2DGrid_scheme" where
  "World2DGrid_add_object ob w =
     (case grid_check_bounds (tor w) (grid_width w) (grid_height w) (objs (st w) ob) of
        Inl e \<Rightarrow> Inl e
      | Inr o' \<Rightarrow>
          (let w1 = World_add_object ob (w\<lparr>st := upd_obj ob (\<lambda>_. o') (st w)\<rparr>)
           in case grid_append (grid w1) (obj_row (st w1) ob) (obj_col (st w1) ob) ob of
                Inl e \<Rightarrow> Inl e
              | Inr g \<Rightarrow> Inr (w1\<lparr>grid := g\<rparr>)))"

definition World2DGrid_remove_object ::
  "oid \<Rightarrow> 'a World2DGrid_scheme \<Rightarrow> error + 'a World2DGrid_scheme" where
  "World2DGrid_remove_object ob w =
     (let w1 = World_remove_object ob w
      in if \<not> is_body (objs (st w1) ob)
         then (case grid_remove (grid w1) (obj_row (st w1) ob) (obj_col (st w1) ob) ob of
                 Inl e \<Rightarrow> Inl e
               | Inr g \<Rightarrow> Inr (w1\<lparr>grid := g\<rparr>))
         else Inr w1)"

text \<open>
  One turn of the loop of \<^verbatim>\<open>World2DGrid.process_agents\<close>; \<^verbatim>\<open>a.body.y\<close> raises
  AttributeError when the agent has no body.
\<close>

definition grid_process_agent ::
  "hooks \<Rightarrow> real \<Rightarrow> aid \<Rightarrow> 'a World2DGrid_scheme \<Rightarrow> error + 'a World2DGrid_scheme" where
  "grid_process_agent h delta a w =
     (case (if \<not> dead (ags (st w) a) then
              (case body (ags (st w) a) of
                 None \<Rightarrow> Inl AttributeError
               | Some b \<Rightarrow>
                   (case grid_remove (grid w) (obj_row (st w) b) (obj_col (st w) b) b of
                      Inl e \<Rightarrow> Inl e
                    | Inr g \<Rightarrow>
                        (let w1 = Agent_update h delta a (w\<lparr>grid := g\<rparr>)
                         in case body (ags (st w1) a) of
                              None \<Rightarrow> Inl AttributeError
                            | Some b' \<Rightarrow>
                                (case grid_append (grid w1) (obj_row (st w1) b')
                                        (obj_col (st w1) b') b' of
                                   Inl e \<Rightarrow> Inl e
                                 | Inr g' \<Rightarrow> Inr (w1\<lparr>grid := g'\<rparr>)))))
            else Inr w) of
        Inl e \<Rightarrow> Inl e
      | Inr w2 \<Rightarrow>
          Inr (if dead (ags (st w2) a) then w2\<lparr>dead_agents := dead_agents w2 @ [a]\<rparr> else w2))"

definition World2DGrid_process_agents ::
  "hooks \<Rightarrow> real \<Rightarrow> 'a World2DGrid_scheme \<Rightarrow> error + 'a World2DGrid_scheme" where
  "World2DGrid_process_agents h delta w = efold (grid_process_agent h delta) (agents w) w"

text \<open>
  One turn of the loop over \<^verbatim>\<open>self._objects\<close> in \<^verbatim>\<open>World2DGrid.update\<close>: the object is
  taken out of its cell, updated, checked against the bounds and put into the cell of
  its new coordinates.
\<close>

definition grid_update_object ::
  "hooks \<Rightarrow> real \<Rightarrow> oid \<Rightarrow> 'a World2DGrid_scheme \<Rightarrow> error + 'a World2DGrid_scheme" where
  "grid_update_object h delta ob w =
     (case grid_remove (grid w) (obj_row (st w) ob) (obj_col (st w) ob) ob of
        Inl e \<Rightarrow> Inl e
      | Inr g \<Rightarrow>
          (case Object_update h delta ob (st w) of
             Inl e \<Rightarrow> Inl e
           | Inr s \<Rightarrow>
               (case grid_check_bounds (tor w) (grid_width w) (grid_height w) (objs s ob) of
                  Inl e \<Rightarrow> Inl e
                | Inr o' \<Rightarrow>
                    (let w1 = w\<lparr>st := upd_obj ob (\<lambda>_. o') s, grid := g\<rparr>
                     in case grid_append (grid w1) (obj_row (st w1) ob) (obj_col (st w1) ob)
                               ob of
                          Inl e \<Rightarrow> Inl e
                        | Inr g' \<Rightarrow> Inr (w1\<lparr>grid := g'\<rparr>)))))"

definition World2DGrid_update ::
  "hooks \<Rightarrow> real \<Rightarrow> 'a World2DGrid_scheme \<Rightarrow> error + 'a World2DGrid_scheme" where
  "World2DGrid_update h delta w =
     (if \<not> paused w then
        (case World2DGrid_process_agents h delta w of
           Inl e \<Rightarrow> Inl e
         | Inr w1 \<Rightarrow>
             (case efold (grid_update_object h delta) (objects w1) w1 of
                Inl e \<Rightarrow> Inl e
              | Inr w2 \<Rightarrow> World_remove_dead_agents World2DGrid_remove_object w2))
      else Inr w)"

section \<open>Influence maps (influence.py)\<close>

datatype diffuse_fn = linear_diffuse_fn | light_diffuse_fn

record CircularInfluence =
  ci_x :: real
  ci_y :: real
  strength :: real
  radius :: real
  ci_r :: real
  diffuse :: real
  static :: bool
  limit :: real
  degrade :: real
  func :: diffuse_fn

text \<open>
  An emitter is either of the abstract base class \<^verbatim>\<open>Influence\<close>, whose value is 0
  everywhere and which has no position, or a \<^verbatim>\<open>CircularInfluence\<close>.
\<close>

datatype Influence = BaseInfluence | Circular CircularInfluence

definition CircularInfluence_init ::
  "real \<Rightarrow> real \<Rightarrow> real \<Rightarrow> real \<Rightarrow> real \<Rightarrow> real \<Rightarrow> bool \<Rightarrow> error + CircularInfluence" where
  "CircularInfluence_init px py strn rad dgr lmt stt =
     (if rad = 0 then Inl ZeroDivisionError
      else Inr \<lparr>ci_x = px, ci_y = py, strength = strn, radius = rad, ci_r = rad / 3,
                diffuse = 1 / rad, static = stt, limit = lmt,
                degrade = (if stt \<and> dgr \<noteq> 0 then 0 else dgr),
                func = linear_diffuse_fn\<rparr>)"

definition linear_diffuse :: "CircularInfluence \<Rightarrow> real \<Rightarrow> real \<Rightarrow> real" where
  "linear_diffuse c px py =
     (let dist = sqrt ((px - ci_x c)\<^sup>2 + (py - ci_y c)\<^sup>2)
      in max (strength c - diffuse c * dist) 0)"

definition light_diffuse :: "CircularInfluence \<Rightarrow> real \<Rightarrow> real \<Rightarrow> error + real" where
  "light_diffuse c px py =
     (let dist = sqrt ((px - ci_x c)\<^sup>2 + (py - ci_y c)\<^sup>2)
      in if ci_r c = 0 \<or> (dist / ci_r c + 1)\<^sup>2 = 0 then Inl ZeroDivisionError
         else (let att = 1 / (dist / ci_r c + 1)\<^sup>2; res = strength c * att
               in if res < limit c then Inr 0 else Inr res))"

definition Influence_get_value :: "Influence \<Rightarrow> real \<Rightarrow> real \<Rightarrow> error + real" where
  "Influence_get_value i px py =
     (case i of
        BaseInfluence \<Rightarrow> Inr 0
      | Circular c \<Rightarrow>
          (case func c of
             linear_diffuse_fn \<Rightarrow> Inr (linear_diffuse c px py)
           | light_diffuse_fn \<Rightarrow> light_diffuse c px py))"

record InfluenceMap =
  im_width :: real
  im_height :: real
  map_width :: int
  map_height :: int
  sector :: real
  maximum :: real
  dirty :: bool
  imap :: "real list list"
  ilist :: "Influence list"
  im_console :: "string list"

definition InfluenceMap_init :: "real \<Rightarrow> real \<Rightarrow> real \<Rightarrow> real \<Rightarrow> error + InfluenceMap" where
  "InfluenceMap_init wd ht sec mx =
     (if sec = 0 then Inl ZeroDivisionError
      else Inr \<lparr>im_width = wd, im_height = ht, map_width = \<lfloor>wd / sec\<rfloor>,
                map_height = \<lfloor>ht / sec\<rfloor>, sector = sec, maximum = mx, dirty = True,
                imap = replicate (nat \<lfloor>ht / sec\<rfloor>) (replicate (nat \<lfloor>wd / sec\<rfloor>) 0),
                ilist = [], im_console = []\<rparr>)"

text \<open>The innermost loop of \<^verbatim>\<open>update\<close>: \<^verbatim>\<open>a = a + i.get_value(...)\<close> over \<^verbatim>\<open>_ilist\<close>.\<close>

fun sum_influences :: "Influence list \<Rightarrow> real \<Rightarrow> real \<Rightarrow> real \<Rightarrow> error + real" where
  "sum_influences [] px py a = Inr a"
| "sum_influences (i # is) px py a =
     (case Influence_get_value i px py of
        Inl e \<Rightarrow> Inl e
      | Inr v \<Rightarrow> sum_influences is px py (a + v))"

text \<open>The body of the two loops of \<^verbatim>\<open>update\<close> for the cell in line \<open>cy\<close>, column \<open>cx\<close>.\<close>

definition update_cell :: "InfluenceMap \<Rightarrow> nat \<Rightarrow> nat \<Rightarrow> real list list \<Rightarrow> error + real list list" where
  "update_cell m cy cx g =
     (case sum_influences (ilist m) (of_nat cx * sector m + sector m / 2)
             (of_nat cy * sector m + sector m / 2) 0 of
        Inl e \<Rightarrow> Inl e
      | Inr a \<Rightarrow>
          (let a' = (if maximum m < a then maximum m else a)
           in if cy < length g \<and> cx < length (g ! cy)
              then Inr (g[cy := (g ! cy)[cx := a']])
              else Inl IndexError))"

definition InfluenceMap_update :: "InfluenceMap \<Rightarrow> error + InfluenceMap" where
  "InfluenceMap_update m =
     (case efold (\<lambda>cy. efold (update_cell m cy) [0..<nat (map_width m)])
             [0..<nat (map_height m)] (imap m) of
        Inl e \<Rightarrow> Inl e
      | Inr g \<Rightarrow> Inr (m\<lparr>imap := g, dirty := True\<rparr>))"

text \<open>\<^verbatim>\<open>place\<close>: reading \<^verbatim>\<open>influence.x\<close> of a base \<^verbatim>\<open>Influence\<close> raises AttributeError.\<close>

definition InfluenceMap_place :: "Influence \<Rightarrow> bool \<Rightarrow> InfluenceMap \<Rightarrow> error + InfluenceMap" where
  "InfluenceMap_place i upd m =
     (case i of
        BaseInfluence \<Rightarrow> Inl AttributeError
      | Circular c \<Rightarrow>
          if 0 \<le> ci_x c \<and> ci_x c \<le> im_width m \<and> 0 \<le> ci_y c \<and> ci_y c \<le> im_height m
          then (let m1 = m\<lparr>ilist := ilist m @ [i]\<rparr>
                in if upd then InfluenceMap_update m1 else Inr m1)
          else Inr (m\<lparr>im_console := im_console m
                         @ [''Tying to place an influence outside the limits of the map'']\<rparr>))"

definition InfluenceMap_get_value :: "InfluenceMap \<Rightarrow> real \<Rightarrow> real \<Rightarrow> error + real" where
  "InfluenceMap_get_value m px py =
     (if 0 < px \<and> px < im_width m \<and> 0 < py \<and> py < im_height m then
        (if sector m = 0 then Inl ZeroDivisionError
         else (case py_index (length (imap m)) \<lfloor>py / sector m\<rfloor> of
                 Inl e \<Rightarrow> Inl e
               | Inr r \<Rightarrow>
                   (case py_index (length (imap m ! r)) \<lfloor>px / sector m\<rfloor> of
                      Inl e \<Rightarrow> Inl e
                    | Inr c \<Rightarrow> Inr (imap m ! r ! c))))
      else Inr 0)"

section \<open>Example states\<close>

text \<open>Concrete objects, stores, worlds and maps on which the properties below are run.\<close>

definition store0 :: store where
  "store0 = \<lparr>objs = (\<lambda>_. Object_init 0 0 (PyFloat 0)), ags = (\<lambda>_. Agent_init), console = []\<rparr>"

text \<open>
  A \<^verbatim>\<open>SimplePhysicsObject\<close> at angle 0.0 whose angular velocity was set to the float
  \<^verbatim>\<open>1e19\<close>, which is the real number \<open>10\<^sup>1\<^sup>9\<close>.
\<close>

definition ex_spinner :: Object where
  "ex_spinner = (SimplePhysicsObject_init 0 0 (PyFloat 0))\<lparr>ang_vel := 10 ^ 19\<rparr>"

definition ex_emitter :: CircularInfluence where
  "ex_emitter =
     \<lparr>ci_x = 1 / 2, ci_y = 1 / 2, strength = 3 / 2, radius = 1, ci_r = 1 / 3, diffuse = 1,
      static = True, limit = 1 / 1000, degrade = 0, func = linear_diffuse_fn\<rparr>"

definition ex_corner_emitter :: CircularInfluence where
  "ex_corner_emitter = ex_emitter\<lparr>ci_x := 0, ci_y := 1\<rparr>"

definition ex_map :: InfluenceMap where
  "ex_map =
     \<lparr>im_width = 2, im_height = 1, map_width = 2, map_height = 1, sector = 1, maximum = 1,
      dirty = True, imap = [[0, 0]], ilist = [BaseInfluence, Circular ex_emitter],
      im_console = []\<rparr>"

text \<open>
  An agent program: it perceives nothing, always decides on the one action
  \<open>advance\<close>, and that action moves the body of the agent one cell to the right.
\<close>

definition ex_hooks :: hooks where
  "ex_hooks =
     \<lparr>perceive = (\<lambda>p a s. s),
      think = (\<lambda>a delta s. ([Action ''advance'' 0], s)),
      execute = (\<lambda>act a s. case body (ags s a) of
                              None \<Rightarrow> s
                            | Some b \<Rightarrow> upd_obj b (Object_translate 1 0) s),
      user_update = (\<lambda>delta ob s. s)\<rparr>"

text \<open>Agent 0 is alive and has body 0; agent 1 is dead and has body 1.\<close>

definition store1 :: store where
  "store1 =
     \<lparr>objs = (\<lambda>_. Object_init 0 0 (PyFloat 0))
               (0 := Object_set_agent (Some 0) (Object_init 0 0 (PyFloat 0)),
                1 := Object_set_agent (Some 1) (Object_init 1 0 (PyFloat 0))),
      ags = (\<lambda>_. Agent_init)
              (0 := Agent_init\<lparr>body := Some 0, has_world := True,
                        perceptions := [(''see'', Perception ''see'' 0)]\<rparr>,
               1 := Agent_init\<lparr>body := Some 1, has_world := True, dead := True\<rparr>),
      console = []\<rparr>"

definition ex_world :: World where
  "ex_world =
     \<lparr>st = store1, agents = [0, 1], dead_agents = [], objects = [0, 1], paused = False,
      trace = []\<rparr>"

text \<open>The world after \<^verbatim>\<open>add_agent\<close> was called twice with the same agent.\<close>

definition twice_world :: World where
  "twice_world =
     pause_toggle
       (projr (World_add_agent (\<lambda>ob w. Inr (World_add_object ob w)) 0
          (projr (World_add_agent (\<lambda>ob w. Inr (World_add_object ob w)) 0
             (World_init store0)))))"

text \<open>
  A closed world of 10 by 10 with one \<^verbatim>\<open>SimplePhysicsObject\<close> at (9, 5) that moves to
  the right with speed 3, and a closed grid of 3 columns and 2 lines with one at (1, 0)
  that moves to the right with speed 5.
\<close>

definition store2 :: store where
  "store2 = store0\<lparr>objs := (objs store0)
              (0 := (SimplePhysicsObject_init 9 5 (PyInt 0))\<lparr>vel := 3, velx := 3\<rparr>)\<rparr>"


definition store3 :: store where
  "store3 = store0\<lparr>objs := (objs store0)
              (0 := (SimplePhysicsObject_init 1 0 (PyFloat 0))\<lparr>vel := 5, velx := 5\<rparr>)\<rparr>"



text \<open>
  A toroidal grid of 2 by 2, and an object at (1.5, 0) that is not in any world yet.
\<close>

definition store4 :: store where
  "store4 = store0\<lparr>objs := (objs store0)(0 := Object_init (3 / 2) 0 (PyFloat 0))\<rparr>"

definition tor_grid :: World2DGrid where
  "tor_grid = World2DGrid_init store4 2 2 20 True"

text \<open>A closed grid of 2 by 2 with no object in it; object 0 of the store is at (0, 0).\<close>

definition empty_grid :: World2DGrid where
  "empty_grid = World2DGrid_init store0 2 2 20 False"

text \<open>
  A closed grid of 3 columns and 2 lines with the agents and bodies of \<open>store1\<close>:
  the body of the live agent 0 in cell (0, 0), the body of the dead agent 1 in cell
  (1, 0).
\<close>

definition agents_grid :: World2DGrid where
  "agents_grid =
     \<lparr>st = store1, agents = [0, 1], dead_agents = [], objects = [0, 1], paused = False,
      trace = [], grid_width = 3, grid_height = 2, cell = 20, tor = False,
      grid = [[[0], [1], []], [[], [], []]]\<rparr>"

text \<open>
  A closed grid of 2 columns and 1 line after \<^verbatim>\<open>add_object\<close> was called twice with the
  same \<^verbatim>\<open>SimplePhysicsObject\<close>, which is at (0, 0) and moves to the right with speed 1.
\<close>

definition store5 :: store where
  "store5 = store0\<lparr>objs := (objs store0)
              (0 := (SimplePhysicsObject_init 0 0 (PyFloat 0))\<lparr>vel := 1, velx := 1\<rparr>)\<rparr>"

definition dup_grid :: World2DGrid where
  "dup_grid =
     pause_toggle
       (projr (World2DGrid_add_object 0
          (projr (World2DGrid_add_object 0 (World2DGrid_init store5 2 1 20 False)))))"




text \<open>
  Methods that reach beyond their own object: the one action \<open>push\<close> of an agent
  moves object 1 one cell to the right, whatever the body of the agent is, and the
  \<^verbatim>\<open>update\<close> of a user subclass of \<^verbatim>\<open>Object\<close> moves object 0 one cell to the right.
\<close>

definition meddling_hooks :: hooks where
  "meddling_hooks =
     \<lparr>perceive = (\<lambda>p a s. s),
      think = (\<lambda>a delta s. ([Action ''push'' 0], s)),
      execute = (\<lambda>act a s. upd_obj 1 (Object_translate 1 0) s),
      user_update = (\<lambda>delta ob s. upd_obj 0 (Object_translate 1 0) s)\<rparr>"

text \<open>
  A closed grid of 3 columns and 1 line: the live agent 0 has body 0 in cell (0, 0), and
  object 1, the body of no agent, is in cell (0, 1).
\<close>

definition store6 :: store where
  "store6 =
     \<lparr>objs = (\<lambda>_. Object_init 0 0 (PyFloat 0))
               (0 := Object_set_agent (Some 0) (Object_init 0 0 (PyFloat 0)),
                1 := Object_init 1 0 (PyFloat 0)),
      ags = (\<lambda>_. Agent_init)(0 := Agent_init\<lparr>body := Some 0, has_world := True\<rparr>),
      console = []\<rparr>"

definition push_grid :: World2DGrid where
  "push_grid =
     \<lparr>st = store6, agents = [0], dead_agents = [], objects = [0, 1], paused = False,
      trace = [], grid_width = 3, grid_height = 1, cell = 20, tor = False,
      grid = [[[0], [1], []]]\<rparr>"

text \<open>
  Object 0 is an \<^verbatim>\<open>Object\<close> at (0, 0), object 1 an instance of a user subclass at
  (1, 0); they are the objects of a closed grid of 3 columns and 1 line, and of a
  \<^verbatim>\<open>World2D\<close> of width 1 and height 1.
\<close>

definition store7 :: store where
  "store7 = store0\<lparr>objs := (objs store0)
              (1 := (Object_init 1 0 (PyFloat 0))\<lparr>obj_class := UserObject\<rparr>)\<rparr>"

definition shove_grid :: World2DGrid where
  "shove_grid =
     \<lparr>st = store7, agents = [], dead_agents = [], objects = [0, 1], paused = False,
      trace = [], grid_width = 3, grid_height = 1, cell = 20, tor = False,
      grid = [[[0], [1], []]]\<rparr>"


section \<open>Predicates used by the properties\<close>

text \<open>
  The angle that the setter stores for an int: \<open>n\<close> itself when \<open>0 \<le> n \<le> 360\<close>, and
  otherwise the number of \<open>(0, 360]\<close>, or of \<open>[0, 360)\<close> for a negative \<open>n\<close>, that
  differs from \<open>n\<close> by a multiple of 360.
\<close>

definition int_angle :: "int \<Rightarrow> int" where
  "int_angle n = (if 360 < n then (n - 1) mod 360 + 1 else if n < 0 then n mod 360 else n)"

text \<open>A list of lines with \<open>nr\<close> lines of \<open>nc\<close> cells each.\<close>

definition shape :: "'a list list \<Rightarrow> nat \<Rightarrow> nat \<Rightarrow> bool" where
  "shape g nr nc = (length g = nr \<and> (\<forall>r < nr. length (g ! r) = nc))"

text \<open>The array of an influence map has the dimensions its constructor gave it.\<close>

definition map_shape_ok :: "InfluenceMap \<Rightarrow> bool" where
  "map_shape_ok m = shape (imap m) (nat (map_height m)) (nat (map_width m))"

text \<open>
  \<open>v\<close> is the sum of the values of all emitters of the map at the centre of the cell in
  line \<open>cy\<close>, column \<open>cx\<close>, capped at the maximum of the map.
\<close>

definition cell_sum_ok :: "InfluenceMap \<Rightarrow> nat \<Rightarrow> nat \<Rightarrow> real \<Rightarrow> bool" where
  "cell_sum_ok m cy cx v =
     (\<exists>vs. map (\<lambda>i. Influence_get_value i (of_nat cx * sector m + sector m / 2)
                      (of_nat cy * sector m + sector m / 2)) (ilist m) = map Inr vs
           \<and> v = min (sum_list vs) (maximum m))"

text \<open>
  \<^verbatim>\<open>Agent.update\<close> in closed form: the perceptions of the agent in the order of the
  dict, the store after all of them were refreshed, the store after the actions that
  \<^verbatim>\<open>_think\<close> returned on that store were executed, and the calls made on the way.
\<close>

definition agent_percepts :: "store \<Rightarrow> aid \<Rightarrow> Perception list" where
  "agent_percepts s a = map snd (perceptions (ags s a))"

definition perceived :: "hooks \<Rightarrow> aid \<Rightarrow> store \<Rightarrow> store" where
  "perceived h a s = fold (\<lambda>p. perceive h p a) (agent_percepts s a) s"

definition Agent_update_store :: "hooks \<Rightarrow> real \<Rightarrow> aid \<Rightarrow> store \<Rightarrow> store" where
  "Agent_update_store h delta a s =
     fold (\<lambda>act. execute h act a) (fst (think h a delta (perceived h a s)))
       (snd (think h a delta (perceived h a s)))"

definition Agent_update_events :: "hooks \<Rightarrow> real \<Rightarrow> aid \<Rightarrow> store \<Rightarrow> event list" where
  "Agent_update_events h delta a s =
     EvUpdate a # map (EvPerceive a) (agent_percepts s a)
       @ map (EvExecute a) (fst (think h a delta (perceived h a s)))"

fun event_agent :: "event \<Rightarrow> aid" where
  "event_agent (EvUpdate a) = a"
| "event_agent (EvPerceive a p) = a"
| "event_agent (EvExecute a act) = a"

text \<open>
  The loop over the agents as C6 words it: each agent of the list \<open>as\<close> in turn, if
  it is not dead, has \<^verbatim>\<open>update\<close> called on the store as the agents before it left
  it.  \<open>tick_store\<close> is the store after the loop, \<open>tick_events\<close> the calls made.
\<close>

fun tick_store :: "hooks \<Rightarrow> real \<Rightarrow> aid list \<Rightarrow> store \<Rightarrow> store" where
  "tick_store h delta [] s = s"
| "tick_store h delta (a # as) s =
     tick_store h delta as (if dead (ags s a) then s else Agent_update_store h delta a s)"

fun tick_events :: "hooks \<Rightarrow> real \<Rightarrow> aid list \<Rightarrow> store \<Rightarrow> event list" where
  "tick_events h delta [] s = []"
| "tick_events h delta (a # as) s =
     (if dead (ags s a) then tick_events h delta as s
      else Agent_update_events h delta a s
           @ tick_events h delta as (Agent_update_store h delta a s))"

text \<open>
  What a tick does with the agents \<open>as\<close> of a world whose store was \<open>s\<close> when the tick
  began, \<open>evs\<close> being the calls of the tick and \<open>as'\<close> the agents left after it.  The
  calls are those of the loop above.  For every agent \<open>a\<close> of the list, with \<open>sa\<close> the
  store when its turn comes: if \<open>a\<close> is not dead at that moment, \<^verbatim>\<open>update\<close> is called
  on it once, and the calls of the tick are those of the agents before it, then
  \<^verbatim>\<open>update\<close> of \<open>a\<close>, the refresh of each of its perceptions and the execution of each
  action that \<^verbatim>\<open>_think\<close> returned, then those of the agents after it; if \<open>a\<close> is dead
  at that moment, no method is called for it, and it is no longer in the world after
  the tick.
\<close>

definition tick_spec ::
  "hooks \<Rightarrow> real \<Rightarrow> store \<Rightarrow> aid list \<Rightarrow> event list \<Rightarrow> aid list \<Rightarrow> bool" where
  "tick_spec h delta s as evs as' =
     (evs = tick_events h delta as s
      \<and> (\<forall>pre a post. as = pre @ a # post \<longrightarrow>
            (let sa = tick_store h delta pre s
             in if dead (ags sa a)
                then (\<forall>e \<in> set evs. event_agent e \<noteq> a) \<and> a \<notin> set as'
                else count_list evs (EvUpdate a) = 1
                     \<and> evs = tick_events h delta pre s
                             @ EvUpdate a # map (EvPerceive a) (agent_percepts sa a)
                             @ map (EvExecute a) (fst (think h a delta (perceived h a sa)))
                             @ tick_events h delta post (Agent_update_store h delta a sa))))"

text \<open>What one turn of the loop over the agents does, in either kind of world.\<close>

definition agent_turn ::
  "hooks \<Rightarrow> real \<Rightarrow> (aid \<Rightarrow> 'a World_scheme \<Rightarrow> error + 'a World_scheme) \<Rightarrow> bool" where
  "agent_turn h delta step =
     (\<forall>a w w'. step a w = Inr w' \<longrightarrow>
        agents w' = agents w
        \<and> set (dead_agents w) \<subseteq> set (dead_agents w')
        \<and> (if dead (ags (st w) a)
            then trace w' = trace w \<and> st w' = st w \<and> a \<in> set (dead_agents w')
            else trace w' = trace w @ Agent_update_events h delta a (st w)
                 \<and> st w' = Agent_update_store h delta a (st w)))"

text \<open>The parts of a world that the loop over the objects leaves alone.\<close>

definition agent_part :: "'a World_scheme \<Rightarrow> aid list \<times> aid list \<times> event list" where
  "agent_part w = (agents w, dead_agents w, trace w)"


definition coords :: "'a World_scheme \<Rightarrow> oid \<Rightarrow> real \<times> real" where
  "coords w ob = (obj_x (objs (st w) ob), obj_y (objs (st w) ob))"


text \<open>
  The cell that \<^verbatim>\<open>self._grid[round(obj.y)][round(obj.x)]\<close> denotes in a grid of \<open>nr\<close>
  lines and \<open>nc\<close> columns, if there is one.
\<close>

definition cell_of :: "nat \<Rightarrow> nat \<Rightarrow> store \<Rightarrow> oid \<Rightarrow> (nat \<times> nat) option" where
  "cell_of nr nc s ob =
     (case py_index nr (obj_row s ob) of
        Inl e \<Rightarrow> None
      | Inr r \<Rightarrow> (case py_index nc (obj_col s ob) of
                    Inl e \<Rightarrow> None
                  | Inr c \<Rightarrow> Some (r, c)))"

text \<open>
  The correspondence of C1 as it is stated: every object of the object list is in the
  cell list that its rounded coordinates denote, and in no other.
\<close>

definition grid_correspondence :: "'a World2DGrid_scheme \<Rightarrow> bool" where
  "grid_correspondence w =
     (\<forall>ob \<in> set (objects w).
        \<exists>r c. cell_of (nat (grid_height w)) (nat (grid_width w)) (st w) ob = Some (r, c)
             \<and> (\<forall>r' < nat (grid_height w). \<forall>c' < nat (grid_width w).
                   (ob \<in> set (grid w ! r' ! c')) = (r' = r \<and> c' = c)))"

text \<open>
  The invariant of the grid: the array has the dimensions of the world, no object is
  twice in the object list or twice in a cell, every object in a cell is an object of the
  world whose rounded coordinates denote that cell, and every object of the world is in
  the cell that its rounded coordinates denote.
\<close>

definition grid_ok :: "'a World2DGrid_scheme \<Rightarrow> bool" where
  "grid_ok w =
     (shape (grid w) (nat (grid_height w)) (nat (grid_width w))
      \<and> distinct (objects w)
      \<and> (\<forall>r < nat (grid_height w). \<forall>c < nat (grid_width w).
            distinct (grid w ! r ! c)
            \<and> (\<forall>ob \<in> set (grid w ! r ! c).
                  ob \<in> set (objects w)
                  \<and> cell_of (nat (grid_height w)) (nat (grid_width w)) (st w) ob = Some (r, c)))
      \<and> (\<forall>ob \<in> set (objects w).
            case cell_of (nat (grid_height w)) (nat (grid_width w)) (st w) ob of
              None \<Rightarrow> False
            | Some (r, c) \<Rightarrow> ob \<in> set (grid w ! r ! c)))"

text \<open>
  The cells of \<open>g\<close> while the objects in \<open>ex\<close> are taken out of the grid: a cell holds
  exactly the other objects of \<open>obs\<close> whose rounded coordinates denote it.
\<close>

definition cells_ok ::
  "nat \<Rightarrow> nat \<Rightarrow> oid list list list \<Rightarrow> store \<Rightarrow> oid list \<Rightarrow> oid set \<Rightarrow> bool" where
  "cells_ok nr nc g s obs ex =
     (\<forall>r < nr. \<forall>c < nc.
        distinct (g ! r ! c)
        \<and> (\<forall>ob. (ob \<in> set (g ! r ! c))
                 = (ob \<in> set obs \<and> ob \<notin> ex \<and> cell_of nr nc s ob = Some (r, c))))"

text \<open>
  From \<open>s\<close> to \<open>s'\<close> the agent \<open>a\<close> kept its body and no object but that body was
  moved; and no method of an agent does more than that.
\<close>

definition moved_own_body :: "aid \<Rightarrow> store \<Rightarrow> store \<Rightarrow> bool" where
  "moved_own_body a s s' =
     (body (ags s' a) = body (ags s a)
      \<and> (\<forall>ob. body (ags s a) \<noteq> Some ob \<longrightarrow>
            obj_x (objs s' ob) = obj_x (objs s ob) \<and> obj_y (objs s' ob) = obj_y (objs s ob)))"

definition moves_only_own_body :: "hooks \<Rightarrow> bool" where
  "moves_only_own_body h =
     (\<forall>a s. (\<forall>p. moved_own_body a s (perceive h p a s))
           \<and> (\<forall>delta. moved_own_body a s (snd (think h a delta s)))
           \<and> (\<forall>act. moved_own_body a s (execute h act a s)))"

text \<open>The \<^verbatim>\<open>update\<close> method of no user subclass moves an object other than its own.\<close>

definition update_moves_only_self :: "hooks \<Rightarrow> bool" where
  "update_moves_only_self h =
     (\<forall>delta ob s u. u \<noteq> ob \<longrightarrow>
        obj_x (objs (user_update h delta ob s) u) = obj_x (objs s u)
        \<and> obj_y (objs (user_update h delta ob s) u) = obj_y (objs s u))"

section \<open>The angle setter\<close>

lemma fl_exact:
  assumes "0 < v" "2 ^ k \<le> v" "v < 2 ^ (k + 1)"
  shows "fl v = 2 powr (int k - 52) * of_int (py_round (v / 2 powr (int k - 52)))"
proof -
  have "\<lfloor>log 2 \<bar>v\<bar>\<rfloor> = int k"
    using assms by (subst floor_log_eq_powr_iff) (simp_all add: powr_realpow powr_add)
  then show ?thesis using assms by (simp add: fl_def Let_def)
qed

lemma py_round_of_int: "py_round (of_int n) = n"
  by (simp add: py_round_def)

lemma fl_360: "fl 360 = 360"
proof -
  have 1: "fl 360 = 2 powr (int 8 - 52) * of_int (py_round (360 / 2 powr (int 8 - 52)))"
    by (rule fl_exact) simp_all
  have 2: "360 / 2 powr (int 8 - 52) = (of_int (360 * 2 ^ 44) :: real)"
    by (simp add: powr_minus_divide)
  show ?thesis unfolding 1 2 py_round_of_int by (simp add: powr_minus_divide)
qed

text \<open>
  The double \<^verbatim>\<open>1e19\<close> is \<open>10\<^sup>1\<^sup>9\<close>; the doubles next to it are 2048 apart, and
  \<open>10\<^sup>1\<^sup>9 - 360\<close> is rounded back to it.
\<close>

lemma fl_1e19: "fl 10000000000000000000 = 10000000000000000000"
proof -
  have 1: "fl 10000000000000000000
      = 2 powr (int 63 - 52) * of_int (py_round (10000000000000000000 / 2 powr (int 63 - 52)))"
    by (rule fl_exact) simp_all
  have 2: "10000000000000000000 / 2 powr (int 63 - 52) = (of_int 4882812500000000 :: real)"
    by simp
  show ?thesis unfolding 1 2 py_round_of_int by simp
qed

lemma fl_1e19_minus_360: "fl 9999999999999999640 = 10000000000000000000"
proof -
  have 1: "fl 9999999999999999640
      = 2 powr (int 63 - 52) * of_int (py_round (9999999999999999640 / 2 powr (int 63 - 52)))"
    by (rule fl_exact) simp_all
  have 2: "9999999999999999640 / 2 powr (int 63 - 52)
      = (of_int 4882812499999999 + 211 / 256 :: real)"
    by simp
  have 3: "py_round (of_int 4882812499999999 + 211 / 256) = 4882812500000000"
    by (simp add: py_round_def)
  show ?thesis unfolding 1 2 3 by simp
qed

lemma norm_down_1e19: "norm_down (PyFloat (10 ^ 19)) = None"
proof (cases "norm_down (PyFloat (10 ^ 19))")
  case None
  then show ?thesis .
next
  case (Some y)
  have "v \<noteq> PyFloat (10 ^ 19)" if "norm_down v = Some r" for v r
  proof (rule norm_down.raw_induct [where P = "\<lambda>v r. v \<noteq> PyFloat (10 ^ 19)", OF _ that])
    fix nd v r
    assume ih: "\<And>x y. nd x = Some y \<Longrightarrow> x \<noteq> PyFloat (10 ^ 19)"
      and st: "(if 360 < num_val v then nd (num_sub v (PyInt 360)) else Some v) = Some r"
    show "v \<noteq> PyFloat (10 ^ 19)"
    proof
      assume e: "v = PyFloat (10 ^ 19)"
      with st have "nd (PyFloat (10 ^ 19)) = Some r"
        by (simp add: fl_360 fl_1e19_minus_360)
      from ih [OF this] show False by simp
    qed
  qed
  from this [OF Some] show ?thesis by simp
qed

text \<open>On ints both loops end, with the remainder of the division by 360.\<close>

lemma norm_down_int:
  "norm_down (PyInt n) = Some (PyInt (if 360 < n then (n - 1) mod 360 + 1 else n))"
proof (induction "nat n" arbitrary: n rule: less_induct)
  case less
  show ?case
  proof (cases "360 < n")
    case False
    then show ?thesis by (subst norm_down.simps) simp
  next
    case True
    then have "nat (n - 360) < nat n" by simp
    from less [OF this]
    have ih: "norm_down (PyInt (n - 360))
        = Some (PyInt (if 360 < n - 360 then (n - 360 - 1) mod 360 + 1 else n - 360))" .
    have a: "(if 360 < n - 360 then (n - 360 - 1) mod 360 + 1 else n - 360) = (n - 1) mod 360 + 1"
    proof (cases "360 < n - 360")
      case True
      have "(n - 1 - 360) mod 360 = (n - 1) mod 360" by (rule minus_mod_self2)
      moreover have "n - 360 - 1 = n - 1 - 360" by simp
      ultimately have "(n - 360 - 1) mod 360 = (n - 1) mod 360" by (simp only:)
      with True show ?thesis by (simp only: if_True)
    next
      case False
      have "(n - 1 - 360) mod 360 = (n - 1) mod 360" by (rule minus_mod_self2)
      moreover have "(n - 1 - 360) mod 360 = n - 1 - 360"
        using False \<open>360 < n\<close> by (intro mod_pos_pos_trivial) simp_all
      ultimately have "(n - 1) mod 360 + 1 = n - 360" by simp
      with False show ?thesis by (simp only: if_False)
    qed
    have "norm_down (PyInt n) = norm_down (PyInt (n - 360))"
      using True by (subst norm_down.simps) simp
    with ih a True show ?thesis by simp
  qed
qed

lemma norm_up_int:
  "norm_up (PyInt n) = Some (PyInt (if n < 0 then n mod 360 else n))"
proof (induction "nat (- n)" arbitrary: n rule: less_induct)
  case less
  show ?case
  proof (cases "n < 0")
    case False
    then show ?thesis by (subst norm_up.simps) simp
  next
    case True
    then have "nat (- (n + 360)) < nat (- n)" by simp
    from less [OF this]
    have ih: "norm_up (PyInt (n + 360))
        = Some (PyInt (if n + 360 < 0 then (n + 360) mod 360 else n + 360))" .
    have a: "(if n + 360 < 0 then (n + 360) mod 360 else n + 360) = n mod 360"
    proof (cases "n + 360 < 0")
      case True
      have "(n + 360) mod 360 = n mod 360" by (rule mod_add_self2)
      with True show ?thesis by (simp only: if_True)
    next
      case False
      have "(n + 360) mod 360 = n mod 360" by (rule mod_add_self2)
      moreover have "(n + 360) mod 360 = n + 360"
        using False \<open>n < 0\<close> by (intro mod_pos_pos_trivial) simp_all
      ultimately have "n mod 360 = n + 360" by simp
      with False show ?thesis by (simp only: if_False)
    qed
    have "norm_up (PyInt n) = norm_up (PyInt (n + 360))"
      using True by (subst norm_up.simps) simp
    with ih a True show ?thesis by simp
  qed
qed

lemma normalize_angle_int: "normalize_angle (PyInt n) = Some (PyInt (int_angle n))"
proof -
  have "0 \<le> (n - 1) mod 360" by simp
  then have "\<not> (n - 1) mod 360 + 1 < 0" by linarith
  then show ?thesis
    by (simp add: normalize_angle_def norm_down_int norm_up_int int_angle_def)
qed

lemma int_angle_range: "0 \<le> int_angle n \<and> int_angle n \<le> 360 \<and> int_angle n mod 360 = n mod 360"
proof -
  have b1: "(n - 1) mod 360 < 360" and b2: "0 \<le> (n - 1) mod 360"
    and b3: "n mod 360 < 360" and b4: "0 \<le> n mod 360"
    by simp_all
  have c: "((n - 1) mod 360 + 1) mod 360 = n mod 360"
    using mod_add_left_eq [of "n - 1" 360 1] by simp
  consider "360 < n" | "n < 0" | "0 \<le> n" "n \<le> 360" by linarith
  then show ?thesis
  proof cases
    case 1
    then have e: "int_angle n = (n - 1) mod 360 + 1" by (simp add: int_angle_def)
    from b1 b2 have "0 \<le> (n - 1) mod 360 + 1" "(n - 1) mod 360 + 1 \<le> 360" by linarith+
    with c show ?thesis by (simp only: e; simp)
  next
    case 2
    then have e: "int_angle n = n mod 360" by (simp add: int_angle_def)
    from b3 have "n mod 360 \<le> 360" by linarith
    with b4 show ?thesis by (simp only: e; simp)
  next
    case 3
    then have e: "int_angle n = n" by (simp add: int_angle_def)
    with 3 show ?thesis by simp
  qed
qed

lemma angle_setter_int:
  "\<exists>ob'. Object_set_angle (PyInt n) ob = Some ob' \<and> obj_angle ob' = PyInt (int_angle n)"
  by (simp add: Object_set_angle_def normalize_angle_int set_velocity_def Let_def)

lemma angle_setter_int_725:
  "obj_angle (the (Object_set_angle (PyInt 725) (Object_init 0 0 (PyFloat 0)))) = PyInt 5
   \<and> obj_angle (the (Object_set_angle (PyInt (- 30)) (Object_init 0 0 (PyFloat 0)))) = PyInt 330
   \<and> obj_angle (the (Object_set_angle (PyInt 360) (Object_init 0 0 (PyFloat 0)))) = PyInt 360"
  by (simp add: Object_set_angle_def normalize_angle_int set_velocity_def Let_def
      int_angle_def Object_init_def)

text \<open>
  Whenever the assignment does return, for an int or a float, the angle it stored is
  between 0 and 360: the first loop ends below or at 360, and the second adds 360 to
  negative numbers only, which rounds to 360 at most.
\<close>

lemma py_round_le: "y < of_int m \<Longrightarrow> py_round y \<le> m"
proof -
  assume "y < of_int m"
  then have "\<lfloor>y\<rfloor> < m" by (simp add: floor_less_iff)
  then show ?thesis by (simp add: py_round_def Let_def)
qed

lemma fl_le_360:
  assumes "v < 360"
  shows "fl v \<le> 360"
proof -
  consider "v = 0" | "v < 0" | "0 < v" by linarith
  then show ?thesis
  proof cases
    case 1
    then show ?thesis by (simp add: fl_def)
  next
    case 2
    define u :: real where "u = 2 powr (of_int \<lfloor>log 2 \<bar>v\<bar>\<rfloor> - 52)"
    have u: "0 < u" by (simp add: u_def)
    with 2 have "v / u < of_int 0" by (simp add: divide_neg_pos)
    from py_round_le [OF this] have "of_int (py_round (v / u)) \<le> (0 :: real)" by simp
    with u have "u * of_int (py_round (v / u)) \<le> 0"
      by (simp add: mult_le_0_iff)
    with 2 show ?thesis by (simp add: fl_def Let_def u_def)
  next
    case 3
    define e where "e = \<lfloor>log 2 \<bar>v\<bar>\<rfloor>"
    define u :: real where "u = 2 powr (of_int e - 52)"
    have u: "0 < u" by (simp add: u_def)
    from 3 assms have "v < 2 powr 9" by simp
    with 3 have "log 2 v < 9" by (simp add: log_less_iff)
    then have "e < 9" using 3 by (simp add: e_def floor_less_iff)
    then have k: "0 \<le> 52 - e" by simp
    define m :: int where "m = 360 * 2 ^ nat (52 - e)"
    have "2 powr (of_int (52 - e)) = (2 :: real) ^ nat (52 - e)"
      using k powr_real_of_int [of 2 "52 - e"] by simp
    moreover have "1 / u = 2 powr (of_int (52 - e))"
      by (simp add: u_def powr_minus_divide [symmetric])
    ultimately have m: "360 / u = of_int m" by (simp add: m_def)
    from assms u have "v / u < 360 / u" by (simp add: divide_strict_right_mono)
    with m have "v / u < of_int m" by simp
    from py_round_le [OF this] have "of_int (py_round (v / u)) \<le> (of_int m :: real)" by simp
    with u have "u * of_int (py_round (v / u)) \<le> u * of_int m"
      by (simp add: mult_le_cancel_left_pos)
    also have "u * of_int m = 360" using m u by (simp add: field_simps)
    finally show ?thesis using 3 by (simp add: fl_def Let_def u_def e_def)
  qed
qed

lemma norm_down_le:
  assumes "norm_down v = Some r"
  shows "num_val r \<le> 360"
proof (rule norm_down.raw_induct [where P = "\<lambda>v r. num_val r \<le> 360", OF _ assms])
  fix nd v r
  assume ih: "\<And>x y. nd x = Some y \<Longrightarrow> num_val y \<le> 360"
    and st: "(if 360 < num_val v then nd (num_sub v (PyInt 360)) else Some v) = Some r"
  show "num_val r \<le> 360"
  proof (cases "360 < num_val v")
    case True
    with st ih show ?thesis by simp
  next
    case False
    with st show ?thesis by simp
  qed
qed

lemma norm_up_range:
  assumes "norm_up v = Some r" "num_val v \<le> 360"
  shows "0 \<le> num_val r \<and> num_val r \<le> 360"
proof -
  have "num_val v \<le> 360 \<longrightarrow> 0 \<le> num_val r \<and> num_val r \<le> 360"
  proof (rule norm_up.raw_induct
      [where P = "\<lambda>v r. num_val v \<le> 360 \<longrightarrow> 0 \<le> num_val r \<and> num_val r \<le> 360", OF _ assms(1)])
    fix nu v r
    assume ih: "\<And>x y. nu x = Some y \<Longrightarrow> num_val x \<le> 360 \<longrightarrow> 0 \<le> num_val y \<and> num_val y \<le> 360"
      and st: "(if num_val v < 0 then nu (num_add v (PyInt 360)) else Some v) = Some r"
    show "num_val v \<le> 360 \<longrightarrow> 0 \<le> num_val r \<and> num_val r \<le> 360"
    proof (cases "num_val v < 0")
      case False
      with st show ?thesis by auto
    next
      case True
      have "num_val (num_add v (PyInt 360)) \<le> 360"
      proof (cases v)
        case (PyInt i)
        with True show ?thesis by simp
      next
        case (PyFloat x)
        with True have "x + 360 < 360" by simp
        from fl_le_360 [OF this] PyFloat show ?thesis by (simp add: fl_360)
      qed
      with True st ih show ?thesis by simp
    qed
  qed
  with assms(2) show ?thesis by simp
qed

lemma angle_setter_range:
  assumes "Object_set_angle v ob = Some ob'"
  shows "0 \<le> num_val (obj_angle ob') \<and> num_val (obj_angle ob') \<le> 360"
proof -
  from assms obtain v1 a where d: "norm_down v = Some v1" and u: "norm_up v1 = Some a"
    and a: "obj_angle ob' = a"
    by (auto simp add: Object_set_angle_def normalize_angle_def set_velocity_def Let_def
        split: option.splits if_splits)
  from norm_up_range [OF u norm_down_le [OF d]] a show ?thesis by simp
qed

text \<open>
  C9.  The claim is that every assignment through the angle setter leaves
  \<open>0 \<le> angle \<le> 360\<close>, for any finite input.  The loop
  \<^verbatim>\<open>while value > 360: value -= 360\<close> subtracts in the arithmetic of its operand.  For
  the float \<^verbatim>\<open>1e19\<close> the difference \<^verbatim>\<open>1e19 - 360\<close> is rounded to \<^verbatim>\<open>1e19\<close> again, so the
  loop never ends and the assignment does not return: for \<^verbatim>\<open>obj.angle = 1e19\<close> on an
  object of either class, for \<^verbatim>\<open>rotate(1e19)\<close> on a new \<^verbatim>\<open>Object\<close>, and for
  \<^verbatim>\<open>update(1.0)\<close> of a \<^verbatim>\<open>SimplePhysicsObject\<close> whose angular velocity is \<^verbatim>\<open>1e19\<close>.
\<close>

theorem angle_setter_hangs_on_large_float:
  "Object_set_angle (PyFloat (10 ^ 19)) ob = None
   \<and> Object_rotate (PyFloat (10 ^ 19)) (Object_init px py (PyFloat 0)) = None
   \<and> ang_vel ex_spinner \<noteq> 0
   \<and> SimplePhysicsObject_update 1 ex_spinner = None"
proof -
  have 1: "Object_set_angle (PyFloat (10 ^ 19)) ob' = None" for ob'
    by (simp only: Object_set_angle_def normalize_angle_def norm_down_1e19 option.case)
  have 2: "num_add (PyFloat 0) (PyFloat (10 ^ 19)) = PyFloat (10 ^ 19)"
    by (simp add: fl_1e19)
  have 3: "fl (10 ^ 19 * 1) = 10 ^ 19"
    by (simp add: fl_1e19)
  have 4: "obj_angle (Object_init px py (PyFloat 0)) = PyFloat 0"
    "obj_angle ex_spinner = PyFloat 0" "ang_vel ex_spinner = 10 ^ 19"
    by (simp_all add: ex_spinner_def SimplePhysicsObject_init_def Object_init_def)
  have 5: "Object_rotate (PyFloat (10 ^ 19)) (Object_init px py (PyFloat 0)) = None"
    by (simp only: Object_rotate_def 4 2 1)
  have 6: "(10 ^ 19 :: real) \<noteq> 0" by simp
  have 7: "SimplePhysicsObject_update 1 ex_spinner = None"
    by (simp only: SimplePhysicsObject_update_def 4 3 2 1 6 if_True not_False_eq_True
        option.case)
  from 1 5 6 7 show ?thesis by (simp only: 4) simp
qed

section \<open>The body of an agent\<close>

text \<open>
  C10.  Assigning a body \<open>b\<close> to an agent \<open>a\<close> through the \<^verbatim>\<open>body\<close> setter makes \<open>b\<close>
  the body of \<open>a\<close>, makes the \<^verbatim>\<open>agent\<close> field of \<open>b\<close> refer to \<open>a\<close> and sets its
  \<^verbatim>\<open>is_body\<close> flag.  Assigning \<^verbatim>\<open>None\<close> to the \<^verbatim>\<open>agent\<close> field of an object clears the
  field and the flag.  After any assignment to the \<^verbatim>\<open>agent\<close> field, and in a freshly
  constructed object, \<^verbatim>\<open>is_body\<close> is true exactly when the field is not \<^verbatim>\<open>None\<close>.
\<close>

theorem body_back_reference:
  "body (ags (Agent_set_body a (Some b) s) a) = Some b
   \<and> obj_agent (objs (Agent_set_body a (Some b) s) b) = Some a
   \<and> is_body (objs (Agent_set_body a (Some b) s) b)
   \<and> obj_agent (Object_set_agent None ob) = None
   \<and> \<not> is_body (Object_set_agent None ob)
   \<and> is_body (Object_set_agent v ob) = (obj_agent (Object_set_agent v ob) \<noteq> None)
   \<and> is_body (Object_init px py an) = (obj_agent (Object_init px py an) \<noteq> None)"
  by (simp add: Agent_set_body_def upd_agent_def upd_obj_def Object_set_agent_def
      Object_init_def split: option.split)

section \<open>Influence maps\<close>

text \<open>
  C8.  \<^verbatim>\<open>get_value(x, y)\<close> returns 0.0 for every point on or outside the boundary of the
  map, whatever the array holds (so the array is not read), while \<^verbatim>\<open>place\<close> accepts an
  emitter that lies on the boundary: it appends the emitter to the list and, when asked
  to, recomputes the map.
\<close>

theorem boundary_query_is_zero:
  "(px \<le> 0 \<or> im_width m \<le> px \<or> py \<le> 0 \<or> im_height m \<le> py
      \<longrightarrow> InfluenceMap_get_value (m\<lparr>imap := g\<rparr>) px py = Inr 0)
   \<and> (0 \<le> ci_x c \<and> ci_x c \<le> im_width m \<and> 0 \<le> ci_y c \<and> ci_y c \<le> im_height m
      \<longrightarrow> InfluenceMap_place (Circular c) False m = Inr (m\<lparr>ilist := ilist m @ [Circular c]\<rparr>)
          \<and> InfluenceMap_place (Circular c) True m
              = InfluenceMap_update (m\<lparr>ilist := ilist m @ [Circular c]\<rparr>))"
  by (auto simp add: InfluenceMap_get_value_def InfluenceMap_place_def Let_def)

theorem boundary_query_is_zero_witness:
  "im_width ex_map \<le> 2
   \<and> InfluenceMap_get_value (ex_map\<lparr>imap := []\<rparr>) 2 (1 / 2) = Inr 0
   \<and> 0 \<le> ci_x ex_corner_emitter \<and> ci_x ex_corner_emitter \<le> im_width ex_map
   \<and> 0 \<le> ci_y ex_corner_emitter \<and> ci_y ex_corner_emitter \<le> im_height ex_map
   \<and> InfluenceMap_place (Circular ex_corner_emitter) False ex_map
       = Inr (ex_map\<lparr>ilist := ilist ex_map @ [Circular ex_corner_emitter]\<rparr>)"
  using boundary_query_is_zero [of 2 ex_map "1 / 2" "[]" ex_corner_emitter]
  by (simp add: ex_map_def ex_corner_emitter_def ex_emitter_def)

lemma shape_nth: "shape g nr nc \<Longrightarrow> r < nr \<Longrightarrow> length (g ! r) = nc"
  by (simp add: shape_def)

lemma shape_set_cell:
  "shape g nr nc \<Longrightarrow> shape (g[r := (g ! r)[c := v]]) nr nc"
proof -
  assume sh: "shape g nr nc"
  have "length (g[r := (g ! r)[c := v]] ! q) = nc" if "q < nr" for q
  proof (cases "q = r")
    case True
    with sh that show ?thesis by (simp add: shape_def)
  next
    case False
    with sh that show ?thesis by (simp add: shape_def)
  qed
  with sh show ?thesis by (simp add: shape_def)
qed

lemma nth_set_cell:
  "shape g nr nc \<Longrightarrow> r < nr \<Longrightarrow> c < nc \<Longrightarrow> r' < nr \<Longrightarrow> c' < nc \<Longrightarrow>
   g[r := (g ! r)[c := v]] ! r' ! c' = (if r' = r \<and> c' = c then v else g ! r' ! c')"
  by (auto simp add: shape_def nth_list_update)

lemma sum_influences_Inr:
  "sum_influences es px py a = Inr r \<Longrightarrow>
   \<exists>vs. map (\<lambda>i. Influence_get_value i px py) es = map Inr vs \<and> r = a + sum_list vs"
proof (induction es arbitrary: a)
  case Nil
  then show ?case by simp
next
  case (Cons i es)
  from Cons.prems obtain v where v: "Influence_get_value i px py = Inr v"
    and r: "sum_influences es px py (a + v) = Inr r"
    by (auto split: sum.splits)
  from Cons.IH [OF r] obtain vs where
    "map (\<lambda>i. Influence_get_value i px py) es = map Inr vs" "r = a + v + sum_list vs"
    by blast
  then have "map (\<lambda>i. Influence_get_value i px py) (i # es) = map Inr (v # vs)
             \<and> r = a + sum_list (v # vs)"
    using v by simp
  then show ?case by blast
qed

lemma sum_influences_total:
  "\<forall>i \<in> set es. \<forall>qx qy. \<exists>v. Influence_get_value i qx qy = Inr v \<Longrightarrow>
   \<exists>r. sum_influences es px py a = Inr r"
proof (induction es arbitrary: a)
  case Nil
  then show ?case by simp
next
  case (Cons i es)
  from Cons.prems have "\<exists>v. Influence_get_value i px py = Inr v" by simp
  then obtain v where v: "Influence_get_value i px py = Inr v" by blast
  from Cons have "\<exists>r. sum_influences es px py (a + v) = Inr r" by simp
  with v show ?case by simp
qed

lemma update_cell_Inr:
  assumes "update_cell m cy cx g = Inr g'"
  shows "\<exists>v. cell_sum_ok m cy cx v \<and> cy < length g \<and> cx < length (g ! cy)
             \<and> g' = g[cy := (g ! cy)[cx := v]]"
proof -
  from assms obtain a where
    a: "sum_influences (ilist m) (of_nat cx * sector m + sector m / 2)
          (of_nat cy * sector m + sector m / 2) 0 = Inr a"
    and in_range: "cy < length g \<and> cx < length (g ! cy)"
    and g': "g' = g[cy := (g ! cy)[cx := (if maximum m < a then maximum m else a)]]"
    by (auto simp add: update_cell_def Let_def split: sum.splits if_splits)
  from sum_influences_Inr [OF a] have "cell_sum_ok m cy cx (if maximum m < a then maximum m else a)"
    by (auto simp add: cell_sum_ok_def min_def)
  with in_range g' show ?thesis by blast
qed

lemma row_loop:
  assumes "efold (update_cell m cy) xs g = Inr g'" "shape g nr nc" "cy < nr"
    "\<forall>x \<in> set xs. x < nc"
  shows "shape g' nr nc
     \<and> (\<forall>r < nr. \<forall>c < nc. (r = cy \<and> c \<in> set xs \<longrightarrow> cell_sum_ok m cy c (g' ! r ! c))
                          \<and> (\<not> (r = cy \<and> c \<in> set xs) \<longrightarrow> g' ! r ! c = g ! r ! c))"
  using assms
proof (induction xs arbitrary: g)
  case Nil
  then show ?case by simp
next
  case (Cons x xs)
  from Cons.prems(1) obtain g1 where g1: "update_cell m cy x g = Inr g1"
    and rest: "efold (update_cell m cy) xs g1 = Inr g'"
    by (auto split: sum.splits)
  from update_cell_Inr [OF g1] obtain v where v: "cell_sum_ok m cy x v"
    and g1_eq: "g1 = g[cy := (g ! cy)[x := v]]" by blast
  have sh1: "shape g1 nr nc" using Cons.prems(2) g1_eq by (simp add: shape_set_cell)
  have xs_lt: "\<forall>x \<in> set xs. x < nc" and x_lt: "x < nc" using Cons.prems(4) by simp_all
  from Cons.IH [OF rest sh1 Cons.prems(3) xs_lt]
  have sh': "shape g' nr nc"
    and ih: "\<forall>r < nr. \<forall>c < nc. (r = cy \<and> c \<in> set xs \<longrightarrow> cell_sum_ok m cy c (g' ! r ! c))
                          \<and> (\<not> (r = cy \<and> c \<in> set xs) \<longrightarrow> g' ! r ! c = g1 ! r ! c)"
    by blast+
  have g1_nth: "\<And>r c. r < nr \<Longrightarrow> c < nc \<Longrightarrow>
      g1 ! r ! c = (if r = cy \<and> c = x then v else g ! r ! c)"
    unfolding g1_eq using nth_set_cell [OF Cons.prems(2) Cons.prems(3) x_lt] by simp
  show ?case
  proof (intro conjI allI impI)
    show "shape g' nr nc" by (rule sh')
  next
    fix r c assume rc: "r < nr" "c < nc" and h: "r = cy \<and> c \<in> set (x # xs)"
    show "cell_sum_ok m cy c (g' ! r ! c)"
    proof (cases "c \<in> set xs")
      case True
      with ih rc h show ?thesis by blast
    next
      case False
      with h have "c = x" by simp
      moreover from ih rc False have "g' ! r ! c = g1 ! r ! c" by blast
      ultimately show ?thesis using g1_nth [OF rc] h v by simp
    qed
  next
    fix r c assume rc: "r < nr" "c < nc" and h: "\<not> (r = cy \<and> c \<in> set (x # xs))"
    then have "\<not> (r = cy \<and> c \<in> set xs)" "\<not> (r = cy \<and> c = x)" by auto
    with ih rc g1_nth [OF rc] show "g' ! r ! c = g ! r ! c" by simp
  qed
qed

lemma map_loop:
  assumes "efold (\<lambda>cy. efold (update_cell m cy) [0..<nc]) ys g = Inr g'" "shape g nr nc"
    "\<forall>y \<in> set ys. y < nr"
  shows "shape g' nr nc
     \<and> (\<forall>r < nr. \<forall>c < nc. (r \<in> set ys \<longrightarrow> cell_sum_ok m r c (g' ! r ! c))
                          \<and> (r \<notin> set ys \<longrightarrow> g' ! r ! c = g ! r ! c))"
  using assms
proof (induction ys arbitrary: g)
  case Nil
  then show ?case by simp
next
  case (Cons y ys)
  from Cons.prems(1) obtain g1 where g1: "efold (update_cell m y) [0..<nc] g = Inr g1"
    and rest: "efold (\<lambda>cy. efold (update_cell m cy) [0..<nc]) ys g1 = Inr g'"
    by (auto split: sum.splits)
  have y_lt: "y < nr" and ys_lt: "\<forall>y \<in> set ys. y < nr" using Cons.prems(3) by simp_all
  from row_loop [OF g1 Cons.prems(2) y_lt]
  have sh1: "shape g1 nr nc"
    and row: "\<forall>r < nr. \<forall>c < nc. (r = y \<longrightarrow> cell_sum_ok m y c (g1 ! r ! c))
                          \<and> (r \<noteq> y \<longrightarrow> g1 ! r ! c = g ! r ! c)"
    by auto
  from Cons.IH [OF rest sh1 ys_lt]
  have sh': "shape g' nr nc"
    and ih: "\<forall>r < nr. \<forall>c < nc. (r \<in> set ys \<longrightarrow> cell_sum_ok m r c (g' ! r ! c))
                          \<and> (r \<notin> set ys \<longrightarrow> g' ! r ! c = g1 ! r ! c)"
    by blast+
  show ?case
  proof (intro conjI allI impI)
    show "shape g' nr nc" by (rule sh')
  next
    fix r c assume rc: "r < nr" "c < nc" and h: "r \<in> set (y # ys)"
    show "cell_sum_ok m r c (g' ! r ! c)"
    proof (cases "r \<in> set ys")
      case True
      with ih rc show ?thesis by blast
    next
      case False
      with h have "r = y" by simp
      moreover from ih rc False have "g' ! r ! c = g1 ! r ! c" by blast
      ultimately show ?thesis using row rc by simp
    qed
  next
    fix r c assume rc: "r < nr" "c < nc" and h: "r \<notin> set (y # ys)"
    then have "r \<notin> set ys" "r \<noteq> y" by auto
    with ih rc row show "g' ! r ! c = g ! r ! c" by simp
  qed
qed

lemma row_loop_total:
  assumes "\<forall>i \<in> set (ilist m). \<forall>qx qy. \<exists>v. Influence_get_value i qx qy = Inr v"
    "shape g nr nc" "cy < nr" "\<forall>x \<in> set xs. x < nc"
  shows "\<exists>g'. efold (update_cell m cy) xs g = Inr g' \<and> shape g' nr nc"
  using assms(2,4)
proof (induction xs arbitrary: g)
  case Nil
  then show ?case by simp
next
  case (Cons x xs)
  from sum_influences_total [OF assms(1)] obtain a where
    "sum_influences (ilist m) (of_nat x * sector m + sector m / 2)
          (of_nat cy * sector m + sector m / 2) 0 = Inr a" by blast
  moreover have "cy < length g" "x < length (g ! cy)"
    using Cons.prems assms(3) by (simp_all add: shape_def)
  ultimately obtain v where g1: "update_cell m cy x g = Inr (g[cy := (g ! cy)[x := v]])"
    by (simp add: update_cell_def Let_def)
  have "shape (g[cy := (g ! cy)[x := v]]) nr nc"
    using Cons.prems(1) by (simp add: shape_set_cell)
  from Cons.IH [OF this] Cons.prems(2) g1 show ?case by simp
qed

lemma map_loop_total:
  assumes "\<forall>i \<in> set (ilist m). \<forall>qx qy. \<exists>v. Influence_get_value i qx qy = Inr v"
    "shape g nr nc" "\<forall>y \<in> set ys. y < nr"
  shows "\<exists>g'. efold (\<lambda>cy. efold (update_cell m cy) [0..<nc]) ys g = Inr g' \<and> shape g' nr nc"
  using assms(2,3)
proof (induction ys arbitrary: g)
  case Nil
  then show ?case by simp
next
  case (Cons y ys)
  have "y < nr" using Cons.prems(2) by simp
  from row_loop_total [OF assms(1) Cons.prems(1) this, of "[0..<nc]"]
  obtain g1 where g1: "efold (update_cell m y) [0..<nc] g = Inr g1" and sh: "shape g1 nr nc"
    by auto
  from Cons.IH [OF sh] Cons.prems(2) g1 show ?case by simp
qed

lemma init_shape: "InfluenceMap_init wd ht sec mx = Inr m \<Longrightarrow> map_shape_ok m"
  by (auto simp add: InfluenceMap_init_def map_shape_ok_def shape_def split: if_splits)

text \<open>
  C7.  After \<^verbatim>\<open>InfluenceMap.update()\<close> has returned, every cell \<open>[cy][cx]\<close> of the map holds
  the sum, over all emitters placed on the map, of the value of the emitter at the centre
  \<open>(cx * sector + sector / 2, cy * sector + sector / 2)\<close> of the cell, capped above at the
  maximum of the map.  And \<^verbatim>\<open>update\<close> does return when no emitter raises (which only
  \<^verbatim>\<open>light_diffuse\<close> can do).
\<close>

theorem update_sums_emitters:
  assumes "map_shape_ok m"
  shows "(\<forall>m'. InfluenceMap_update m = Inr m' \<longrightarrow>
            (\<forall>cy < nat (map_height m). \<forall>cx < nat (map_width m).
               \<exists>vs. map (\<lambda>i. Influence_get_value i (of_nat cx * sector m + sector m / 2)
                                (of_nat cy * sector m + sector m / 2)) (ilist m) = map Inr vs
                    \<and> imap m' ! cy ! cx = min (sum_list vs) (maximum m)))
       \<and> ((\<forall>i \<in> set (ilist m). \<forall>qx qy. \<exists>v. Influence_get_value i qx qy = Inr v) \<longrightarrow>
            (\<exists>m'. InfluenceMap_update m = Inr m'))"
proof (intro conjI allI impI)
  fix m' cy cx
  assume u: "InfluenceMap_update m = Inr m'" and cy: "cy < nat (map_height m)"
    and cx: "cx < nat (map_width m)"
  from u obtain g where g: "efold (\<lambda>cy. efold (update_cell m cy) [0..<nat (map_width m)])
             [0..<nat (map_height m)] (imap m) = Inr g" and m': "imap m' = g"
    by (auto simp add: InfluenceMap_update_def split: sum.splits)
  from map_loop [OF g assms [unfolded map_shape_ok_def]] cy cx
  have "cell_sum_ok m cy cx (g ! cy ! cx)" by simp
  then show "\<exists>vs. map (\<lambda>i. Influence_get_value i (of_nat cx * sector m + sector m / 2)
                                (of_nat cy * sector m + sector m / 2)) (ilist m) = map Inr vs
                    \<and> imap m' ! cy ! cx = min (sum_list vs) (maximum m)"
    by (simp add: cell_sum_ok_def m')
next
  assume "\<forall>i \<in> set (ilist m). \<forall>qx qy. \<exists>v. Influence_get_value i qx qy = Inr v"
  from map_loop_total [OF this assms [unfolded map_shape_ok_def], of "[0..<nat (map_height m)]"]
  show "\<exists>m'. InfluenceMap_update m = Inr m'"
    by (auto simp add: InfluenceMap_update_def)
qed

theorem update_sums_emitters_witness:
  "map_shape_ok ex_map
   \<and> InfluenceMap_update ex_map = Inr (ex_map\<lparr>imap := [[1, 1 / 2]]\<rparr>)
   \<and> (\<exists>vs. map (\<lambda>i. Influence_get_value i (of_nat 1 * sector ex_map + sector ex_map / 2)
                    (of_nat 0 * sector ex_map + sector ex_map / 2)) (ilist ex_map) = map Inr vs
           \<and> imap (ex_map\<lparr>imap := [[1, 1 / 2]]\<rparr>) ! 0 ! 1 = min (sum_list vs) (maximum ex_map))"
proof -
  have sh: "map_shape_ok ex_map"
    by (simp add: map_shape_ok_def shape_def ex_map_def)
  have up: "InfluenceMap_update ex_map = Inr (ex_map\<lparr>imap := [[1, 1 / 2]]\<rparr>)"
    by (simp add: InfluenceMap_update_def ex_map_def ex_emitter_def update_cell_def
        Influence_get_value_def linear_diffuse_def upt_rec numeral_2_eq_2)
  have "0 < nat (map_height ex_map)" "1 < nat (map_width ex_map)"
    by (simp_all add: ex_map_def)
  with update_sums_emitters [OF sh] up sh show ?thesis by blast
qed

section \<open>One tick of a world and its agents\<close>

lemma fold_st_trace:
  "fold (\<lambda>v w'. w'\<lparr>st := F v (st w'), trace := trace w' @ [E v]\<rparr>) vs w
     = w\<lparr>st := fold F vs (st w), trace := trace w @ map E vs\<rparr>"
  by (induction vs arbitrary: w) simp_all

lemma Agent_update_eq:
  "Agent_update h delta a w =
     w\<lparr>st := Agent_update_store h delta a (st w),
       trace := trace w @ Agent_update_events h delta a (st w)\<rparr>"
proof -
  have p: "update_perceptions h a w' =
      w'\<lparr>st := perceived h a (st w'), trace := trace w' @ map (EvPerceive a) (agent_percepts (st w') a)\<rparr>"
    for w' :: "'a World_scheme"
    unfolding update_perceptions_def perceived_def agent_percepts_def
    by (rule fold_st_trace [where F = "\<lambda>p. perceive h p a" and E = "EvPerceive a"])
  show ?thesis
    unfolding Agent_update_def Let_def split_beta p
      fold_st_trace [where F = "\<lambda>act. execute h act a" and E = "EvExecute a"]
    by (simp add: Agent_update_store_def Agent_update_events_def)
qed


lemma count_map_other: "(\<And>v. f v \<noteq> e) \<Longrightarrow> count_list (map f vs) e = 0"
  by (induction vs) simp_all

lemma Agent_update_events_count:
  "count_list (Agent_update_events h delta a s) (EvUpdate b) = (if b = a then 1 else 0)"
  by (simp add: Agent_update_events_def count_map_other)

lemma Agent_update_events_agent:
  "e \<in> set (Agent_update_events h delta a s) \<Longrightarrow> event_agent e = a"
  by (auto simp add: Agent_update_events_def)

lemma efold_pure: "efold (\<lambda>v s. Inr (f v s)) vs s = Inr (fold f vs s)"
  by (induction vs arbitrary: s) simp_all

lemma tick_store_append:
  "tick_store h delta (xs @ ys) s = tick_store h delta ys (tick_store h delta xs s)"
  by (induction xs arbitrary: s) simp_all

lemma tick_events_append:
  "tick_events h delta (xs @ ys) s
     = tick_events h delta xs s @ tick_events h delta ys (tick_store h delta xs s)"
  by (induction xs arbitrary: s) simp_all

lemma tick_events_agent:
  "e \<in> set (tick_events h delta as s) \<Longrightarrow> event_agent e \<in> set as"
proof (induction as arbitrary: s)
  case Nil
  then show ?case by simp
next
  case (Cons a as)
  show ?case
  proof (cases "dead (ags s a)")
    case True
    with Cons.prems have "e \<in> set (tick_events h delta as s)" by simp
    from Cons.IH [OF this] show ?thesis by simp
  next
    case False
    with Cons.prems consider "e \<in> set (Agent_update_events h delta a s)"
      | "e \<in> set (tick_events h delta as (Agent_update_store h delta a s))"
      by auto
    then show ?thesis
    proof cases
      case 1
      from Agent_update_events_agent [OF this] show ?thesis by simp
    next
      case 2
      from Cons.IH [OF this] show ?thesis by simp
    qed
  qed
qed

lemma tick_events_count_other:
  "a \<notin> set as \<Longrightarrow> count_list (tick_events h delta as s) (EvUpdate a) = 0"
  using tick_events_agent [of "EvUpdate a" h delta as s]
  by (auto simp add: count_list_0_iff)

text \<open>
  The loop over the agents, in either kind of world, makes the calls of \<open>tick_events\<close>
  and leaves the store \<open>tick_store\<close>; an agent that is dead when its turn comes is in
  the list of the dead agents afterwards.
\<close>

lemma process_loop:
  assumes turn: "agent_turn h delta step" and "efold step as w = Inr w'"
  shows "agents w' = agents w \<and> set (dead_agents w) \<subseteq> set (dead_agents w')
     \<and> trace w' = trace w @ tick_events h delta as (st w)
     \<and> st w' = tick_store h delta as (st w)
     \<and> (\<forall>pre a post. as = pre @ a # post \<and> dead (ags (tick_store h delta pre (st w)) a)
           \<longrightarrow> a \<in> set (dead_agents w'))"
  using assms(2)
proof (induction as arbitrary: w)
  case Nil
  then show ?case by simp
next
  case (Cons x xs)
  from Cons.prems obtain w1 where s1: "step x w = Inr w1"
    and rest: "efold step xs w1 = Inr w'"
    by (auto split: sum.splits)
  note ih = Cons.IH [OF rest]
  from turn s1 have t1: "agents w1 = agents w" "set (dead_agents w) \<subseteq> set (dead_agents w1)"
    and t2: "dead (ags (st w) x) \<Longrightarrow>
               trace w1 = trace w \<and> st w1 = st w \<and> x \<in> set (dead_agents w1)"
    and t3: "\<not> dead (ags (st w) x) \<Longrightarrow>
               trace w1 = trace w @ Agent_update_events h delta x (st w)
                 \<and> st w1 = Agent_update_store h delta x (st w)"
    unfolding agent_turn_def by (metis (full_types))+
  have st1: "st w1 = (if dead (ags (st w) x) then st w else Agent_update_store h delta x (st w))"
    using t2 t3 by simp
  have tr1: "trace w1 @ tick_events h delta xs (st w1)
               = trace w @ tick_events h delta (x # xs) (st w)"
    using t2 t3 by (cases "dead (ags (st w) x)") simp_all
  have ts: "tick_store h delta xs (st w1) = tick_store h delta (x # xs) (st w)"
    by (simp add: st1)
  have dd: "a \<in> set (dead_agents w')"
    if "x # xs = pre @ a # post" "dead (ags (tick_store h delta pre (st w)) a)" for pre a post
  proof (cases pre)
    case Nil
    with that have "a = x" "dead (ags (st w) x)" by simp_all
    with t2 ih show ?thesis by auto
  next
    case (Cons y pre')
    with that have e: "xs = pre' @ a # post" and y: "y = x" by simp_all
    from that(2) have "dead (ags (tick_store h delta pre' (st w1)) a)"
      by (simp add: Cons y st1)
    with ih e show ?thesis by blast
  qed
  show ?case
  proof (intro conjI allI impI)
    show "agents w' = agents w" using ih t1 by simp
    show "set (dead_agents w) \<subseteq> set (dead_agents w')" using ih t1 by blast
    show "trace w' = trace w @ tick_events h delta (x # xs) (st w)"
      using ih tr1 by simp
    show "st w' = tick_store h delta (x # xs) (st w)" using ih ts by simp
  next
    fix pre a post
    assume "x # xs = pre @ a # post \<and> dead (ags (tick_store h delta pre (st w)) a)"
    then show "a \<in> set (dead_agents w')" using dd by blast
  qed
qed

lemma efold_keeps:
  assumes "\<And>v s s'. F v s = Inr s' \<Longrightarrow> P s' = P s" "efold F vs s = Inr s'"
  shows "P s' = P s"
  using assms(2)
proof (induction vs arbitrary: s)
  case Nil
  then show ?case by simp
next
  case (Cons v vs)
  then obtain s1 where "F v s = Inr s1" "efold F vs s1 = Inr s'"
    by (auto split: sum.splits)
  with Cons.IH assms(1) show ?case by metis
qed

lemma base_turn:
  "agent_turn h delta
     (\<lambda>a w'. Inr (if \<not> dead (ags (st w') a) then Agent_update h delta a w'
                    else w'\<lparr>dead_agents := dead_agents w' @ [a]\<rparr>))"
  by (auto simp add: agent_turn_def Agent_update_eq)

lemma grid_turn: "agent_turn h delta (grid_process_agent h delta)"
  unfolding agent_turn_def
proof (intro allI impI)
  fix a and w w' :: "'a World2DGrid_scheme"
  assume s: "grid_process_agent h delta a w = Inr w'"
  show "agents w' = agents w \<and> set (dead_agents w) \<subseteq> set (dead_agents w')
        \<and> (if dead (ags (st w) a)
            then trace w' = trace w \<and> st w' = st w \<and> a \<in> set (dead_agents w')
            else trace w' = trace w @ Agent_update_events h delta a (st w)
                 \<and> st w' = Agent_update_store h delta a (st w))"
  proof (cases "dead (ags (st w) a)")
    case True
    with s show ?thesis by (auto simp add: grid_process_agent_def)
  next
    case False
    with s show ?thesis
      by (auto simp add: grid_process_agent_def Agent_update_eq Let_def
          split: option.splits sum.splits if_splits)
  qed
qed

lemma World_process_agents_efold:
  "Inr (World_process_agents h delta w) =
     efold (\<lambda>a w'. Inr (if \<not> dead (ags (st w') a) then Agent_update h delta a w'
                          else w'\<lparr>dead_agents := dead_agents w' @ [a]\<rparr>)) (agents w) w"
  unfolding World_process_agents_def by (rule efold_pure [symmetric])

lemma World_objects_loop_agent_part:
  "efold (World_update_object h delta) obs w = Inr w' \<Longrightarrow> agent_part w' = agent_part w"
  by (rule efold_keeps [where P = agent_part and F = "World_update_object h delta"])
     (auto simp add: World_update_object_def agent_part_def split: sum.splits)

lemma World2D_objects_loop_agent_part:
  "efold (World2D_update_object h delta) obs w = Inr w' \<Longrightarrow> agent_part w' = agent_part w"
  by (rule efold_keeps [where P = agent_part and F = "World2D_update_object h delta"])
     (auto simp add: World2D_update_object_def agent_part_def split: sum.splits)

lemma grid_update_object_agent_part:
  "grid_update_object h delta ob w = Inr w' \<Longrightarrow> agent_part w' = agent_part w"
  by (auto simp add: grid_update_object_def agent_part_def Let_def split: sum.splits)

lemma grid_objects_loop_agent_part:
  "efold (grid_update_object h delta) obs w = Inr w' \<Longrightarrow> agent_part w' = agent_part w"
  by (rule efold_keeps [where P = agent_part and F = "grid_update_object h delta"])
     (rule grid_update_object_agent_part)

lemma remove_dead_agent_agents:
  assumes rmo: "\<And>ob v v'. rmo ob v = Inr v' \<Longrightarrow> agents v' = agents v \<and> trace v' = trace v"
    and "remove_dead_agent rmo a w = Inr w'" "distinct (agents w)"
  shows "trace w' = trace w \<and> distinct (agents w') \<and> set (agents w') = set (agents w) - {a}"
proof -
  have 1: "trace (World_remove_agent a w) = trace w"
    "distinct (agents (World_remove_agent a w))"
    "set (agents (World_remove_agent a w)) = set (agents w) - {a}"
    using assms(3) by (auto simp add: World_remove_agent_def)
  from assms(2) obtain b where
    "w' = World_remove_agent a w\<lparr>st := upd_obj b (Object_set_agent None)
             (Agent_set_body a None (st (World_remove_agent a w)))\<rparr>
     \<or> rmo b (World_remove_agent a w\<lparr>st := upd_obj b (Object_set_agent None)
             (Agent_set_body a None (st (World_remove_agent a w)))\<rparr>) = Inr w'"
    by (auto simp add: remove_dead_agent_def Let_def split: option.splits if_splits)
  then show ?thesis
  proof
    assume "w' = World_remove_agent a w\<lparr>st := upd_obj b (Object_set_agent None)
             (Agent_set_body a None (st (World_remove_agent a w)))\<rparr>"
    with 1 show ?thesis by simp
  next
    assume "rmo b (World_remove_agent a w\<lparr>st := upd_obj b (Object_set_agent None)
             (Agent_set_body a None (st (World_remove_agent a w)))\<rparr>) = Inr w'"
    from rmo [OF this] 1 show ?thesis by simp
  qed
qed

lemma remove_dead_loop_agents:
  assumes rmo: "\<And>ob v v'. rmo ob v = Inr v' \<Longrightarrow> agents v' = agents v \<and> trace v' = trace v"
    and "efold (remove_dead_agent rmo) ds w = Inr w'" "distinct (agents w)"
  shows "trace w' = trace w \<and> distinct (agents w') \<and> set (agents w') = set (agents w) - set ds"
  using assms(2,3)
proof (induction ds arbitrary: w)
  case Nil
  then show ?case by simp
next
  case (Cons a ds)
  then obtain w1 where 1: "remove_dead_agent rmo a w = Inr w1"
    and 2: "efold (remove_dead_agent rmo) ds w1 = Inr w'"
    by (auto split: sum.splits)
  from remove_dead_agent_agents [OF rmo 1 Cons.prems(2)]
  have 3: "trace w1 = trace w" "distinct (agents w1)" "set (agents w1) = set (agents w) - {a}"
    by simp_all
  from Cons.IH [OF 2 3(2)] 3 show ?case by auto
qed

lemma World_remove_dead_agents_agents:
  assumes rmo: "\<And>ob v v'. rmo ob v = Inr v' \<Longrightarrow> agents v' = agents v \<and> trace v' = trace v"
    and "World_remove_dead_agents rmo w = Inr w'" "distinct (agents w)"
  shows "trace w' = trace w \<and> set (agents w') = set (agents w) - set (dead_agents w)"
proof -
  from assms(2) obtain w1 where 1: "efold (remove_dead_agent rmo) (dead_agents w) w = Inr w1"
    and 2: "w' = w1\<lparr>dead_agents := []\<rparr>"
    by (auto simp add: World_remove_dead_agents_def split: sum.splits)
  from remove_dead_loop_agents [OF rmo 1 assms(3)] 2 show ?thesis by simp
qed

lemma World_remove_object_frame:
  "agents (World_remove_object ob w) = agents w \<and> trace (World_remove_object ob w) = trace w"
  by (simp add: World_remove_object_def)

lemma World2DGrid_remove_object_frame:
  "World2DGrid_remove_object ob w = Inr w' \<Longrightarrow> agents w' = agents w \<and> trace w' = trace w"
  by (auto simp add: World2DGrid_remove_object_def Let_def World_remove_object_def
      split: if_splits sum.splits)

text \<open>
  The calls of the loop satisfy \<open>tick_spec\<close> when no agent is twice in the list and the
  agents that are dead when their turn comes are gone afterwards.
\<close>

lemma tick_spec_events:
  assumes d: "distinct as"
    and gone: "\<And>pre a post. as = pre @ a # post \<Longrightarrow>
                 dead (ags (tick_store h delta pre s) a) \<Longrightarrow> a \<notin> set as'"
  shows "tick_spec h delta s as (tick_events h delta as s) as'"
  unfolding tick_spec_def
proof (intro conjI allI impI)
  show "tick_events h delta as s = tick_events h delta as s" ..
next
  fix pre a post
  assume e: "as = pre @ a # post"
  define sa where "sa = tick_store h delta pre s"
  from d e have na: "a \<notin> set pre" "a \<notin> set post" by simp_all
  have split: "tick_events h delta as s
      = tick_events h delta pre s @ tick_events h delta (a # post) sa"
    unfolding e sa_def by (rule tick_events_append)
  have "if dead (ags sa a)
        then (\<forall>e \<in> set (tick_events h delta as s). event_agent e \<noteq> a) \<and> a \<notin> set as'
        else count_list (tick_events h delta as s) (EvUpdate a) = 1
             \<and> tick_events h delta as s
                 = tick_events h delta pre s
                   @ EvUpdate a # map (EvPerceive a) (agent_percepts sa a)
                   @ map (EvExecute a) (fst (think h a delta (perceived h a sa)))
                   @ tick_events h delta post (Agent_update_store h delta a sa)"
  proof (cases "dead (ags sa a)")
    case True
    then have s2: "tick_events h delta as s
        = tick_events h delta pre s @ tick_events h delta post sa"
      by (simp add: split)
    have "event_agent ev \<noteq> a" if "ev \<in> set (tick_events h delta as s)" for ev
    proof -
      from that s2 consider "ev \<in> set (tick_events h delta pre s)"
        | "ev \<in> set (tick_events h delta post sa)" by auto
      then show ?thesis
      proof cases
        case 1
        from tick_events_agent [OF this] na show ?thesis by auto
      next
        case 2
        from tick_events_agent [OF this] na show ?thesis by auto
      qed
    qed
    moreover from gone [OF e] True have "a \<notin> set as'" by (simp add: sa_def)
    ultimately show ?thesis using True by simp
  next
    case False
    then have s2: "tick_events h delta as s
        = tick_events h delta pre s @ Agent_update_events h delta a sa
          @ tick_events h delta post (Agent_update_store h delta a sa)"
      by (simp add: split)
    have "count_list (tick_events h delta as s) (EvUpdate a) = 1"
      unfolding s2
      by (simp add: tick_events_count_other [OF na(1)] tick_events_count_other [OF na(2)]
          Agent_update_events_count)
    moreover have "tick_events h delta as s
                 = tick_events h delta pre s
                   @ EvUpdate a # map (EvPerceive a) (agent_percepts sa a)
                   @ map (EvExecute a) (fst (think h a delta (perceived h a sa)))
                   @ tick_events h delta post (Agent_update_store h delta a sa)"
      unfolding s2 by (simp add: Agent_update_events_def)
    ultimately show ?thesis using False by simp
  qed
  then show "let sa = tick_store h delta pre s
       in if dead (ags sa a)
          then (\<forall>e \<in> set (tick_events h delta as s). event_agent e \<noteq> a) \<and> a \<notin> set as'
          else count_list (tick_events h delta as s) (EvUpdate a) = 1
               \<and> tick_events h delta as s
                   = tick_events h delta pre s
                     @ EvUpdate a # map (EvPerceive a) (agent_percepts sa a)
                     @ map (EvExecute a) (fst (think h a delta (perceived h a sa)))
                     @ tick_events h delta post (Agent_update_store h delta a sa)"
    unfolding Let_def sa_def .
qed

text \<open>From the loop over the agents to the whole tick.\<close>

lemma tick_from_process:
  assumes turn: "agent_turn h delta step"
    and d: "distinct (agents w)"
    and p: "efold step (agents w) w = Inr w1"
    and o: "agent_part w2 = agent_part w1"
    and rmo: "\<And>ob v v'. rmo ob v = Inr v' \<Longrightarrow> agents v' = agents v \<and> trace v' = trace v"
    and r: "World_remove_dead_agents rmo w2 = Inr w'"
  shows "\<exists>evs. trace w' = trace w @ evs \<and> tick_spec h delta (st w) (agents w) evs (agents w')"
proof -
  from process_loop [OF turn p]
  have ag: "agents w1 = agents w"
    and tr: "trace w1 = trace w @ tick_events h delta (agents w) (st w)"
    and dd: "\<And>pre a post. agents w = pre @ a # post \<Longrightarrow>
               dead (ags (tick_store h delta pre (st w)) a) \<Longrightarrow> a \<in> set (dead_agents w1)"
    by blast+
  from o have o': "agents w2 = agents w1" "trace w2 = trace w1" "dead_agents w2 = dead_agents w1"
    by (simp_all add: agent_part_def)
  from World_remove_dead_agents_agents [OF rmo r] d ag o'
  have fin: "trace w' = trace w2" "set (agents w') = set (agents w2) - set (dead_agents w2)"
    by simp_all
  have "tick_spec h delta (st w) (agents w) (tick_events h delta (agents w) (st w)) (agents w')"
  proof (rule tick_spec_events [OF d])
    fix pre a post
    assume "agents w = pre @ a # post" "dead (ags (tick_store h delta pre (st w)) a)"
    from dd [OF this] fin o' show "a \<notin> set (agents w')" by simp
  qed
  with fin tr o' show ?thesis by auto
qed

text \<open>
  C6 (as amended).  In a world whose agent list holds every agent once, a tick that is
  not paused and returns makes exactly the calls of the loop that C6 describes: for
  each agent of the list in turn that is not dead when its turn comes, one call of
  \<^verbatim>\<open>update\<close>, then the refresh of each of its perceptions in the order of the dict, then
  the execution, in order, of each action that \<^verbatim>\<open>_think\<close> returned on the refreshed
  state.  For an agent that is dead when its turn comes no method is called, and it is
  no longer in the agent list after the tick.  This holds for \<^verbatim>\<open>World\<close>, \<^verbatim>\<open>World2D\<close>
  and \<^verbatim>\<open>World2DGrid\<close>.  The store that \<^verbatim>\<open>process_agents\<close> leaves is the one that these
  refreshes and executions produce, and one call of \<^verbatim>\<open>Agent.update\<close> makes these calls
  on the store in that order.
\<close>

theorem tick_updates_live_agents_once:
  "(\<forall>w'. distinct (agents w1) \<and> \<not> paused w1 \<and> World_update h delta w1 = Inr w' \<longrightarrow>
        (\<exists>evs. trace w' = trace w1 @ evs
              \<and> tick_spec h delta (st w1) (agents w1) evs (agents w')))
   \<and> (\<forall>w'. distinct (agents w2) \<and> \<not> paused w2 \<and> World2D_update h delta w2 = Inr w' \<longrightarrow>
        (\<exists>evs. trace w' = trace w2 @ evs
              \<and> tick_spec h delta (st w2) (agents w2) evs (agents w')))
   \<and> (\<forall>w'. distinct (agents w3) \<and> \<not> paused w3 \<and> World2DGrid_update h delta w3 = Inr w' \<longrightarrow>
        (\<exists>evs. trace w' = trace w3 @ evs
              \<and> tick_spec h delta (st w3) (agents w3) evs (agents w')))
   \<and> st (World_process_agents h delta w) = tick_store h delta (agents w) (st w)
   \<and> (\<forall>w'. World2DGrid_process_agents h delta w3 = Inr w' \<longrightarrow>
        st w' = tick_store h delta (agents w3) (st w3))
   \<and> trace (Agent_update h delta a w) =
       trace w @ EvUpdate a # map (EvPerceive a) (map snd (perceptions (ags (st w) a)))
         @ map (EvExecute a)
             (fst (think h a delta
                (fold (\<lambda>p. perceive h p a) (map snd (perceptions (ags (st w) a))) (st w))))
   \<and> st (Agent_update h delta a w) =
       fold (\<lambda>act. execute h act a)
         (fst (think h a delta
            (fold (\<lambda>p. perceive h p a) (map snd (perceptions (ags (st w) a))) (st w))))
         (snd (think h a delta
            (fold (\<lambda>p. perceive h p a) (map snd (perceptions (ags (st w) a))) (st w))))"
proof (intro conjI allI impI)
  fix w' assume a: "distinct (agents w1) \<and> \<not> paused w1 \<and> World_update h delta w1 = Inr w'"
  then have "\<not> paused w1" "World_update h delta w1 = Inr w'" by simp_all
  then obtain v2 where
    o: "efold (World_update_object h delta) (objects (World_process_agents h delta w1))
          (World_process_agents h delta w1) = Inr v2"
    and r: "World_remove_dead_agents (\<lambda>ob w'. Inr (World_remove_object ob w')) v2 = Inr w'"
    by (auto simp add: World_update_def Let_def split: sum.splits)
  show "\<exists>evs. trace w' = trace w1 @ evs
          \<and> tick_spec h delta (st w1) (agents w1) evs (agents w')"
    by (rule tick_from_process [OF base_turn _ World_process_agents_efold [symmetric]
          World_objects_loop_agent_part [OF o] _ r])
       (use a in \<open>simp_all add: World_remove_object_frame\<close>)
next
  fix w' assume a: "distinct (agents w2) \<and> \<not> paused w2 \<and> World2D_update h delta w2 = Inr w'"
  then have "\<not> paused w2" "World2D_update h delta w2 = Inr w'" by simp_all
  then obtain v2 where
    o: "efold (World2D_update_object h delta) (objects (World_process_agents h delta w2))
          (World_process_agents h delta w2) = Inr v2"
    and r: "World_remove_dead_agents (\<lambda>ob w'. Inr (World_remove_object ob w')) v2 = Inr w'"
    by (auto simp add: World2D_update_def Let_def split: sum.splits)
  show "\<exists>evs. trace w' = trace w2 @ evs
          \<and> tick_spec h delta (st w2) (agents w2) evs (agents w')"
    by (rule tick_from_process [OF base_turn _ World_process_agents_efold [symmetric]
          World2D_objects_loop_agent_part [OF o] _ r])
       (use a in \<open>simp_all add: World_remove_object_frame\<close>)
next
  fix w' assume a: "distinct (agents w3) \<and> \<not> paused w3 \<and> World2DGrid_update h delta w3 = Inr w'"
  then have "\<not> paused w3" "World2DGrid_update h delta w3 = Inr w'" by simp_all
  then obtain v1 v2 where p: "efold (grid_process_agent h delta) (agents w3) w3 = Inr v1"
    and o: "efold (grid_update_object h delta) (objects v1) v1 = Inr v2"
    and r: "World_remove_dead_agents World2DGrid_remove_object v2 = Inr w'"
    by (auto simp add: World2DGrid_update_def World2DGrid_process_agents_def split: sum.splits)
  show "\<exists>evs. trace w' = trace w3 @ evs
          \<and> tick_spec h delta (st w3) (agents w3) evs (agents w')"
    by (rule tick_from_process [OF grid_turn _ p grid_objects_loop_agent_part [OF o] _ r])
       (use a in \<open>simp_all add: World2DGrid_remove_object_frame\<close>)
next
  from process_loop [OF base_turn World_process_agents_efold [symmetric], of h delta w]
  show "st (World_process_agents h delta w) = tick_store h delta (agents w) (st w)"
    by blast
next
  fix w' assume "World2DGrid_process_agents h delta w3 = Inr w'"
  then have "efold (grid_process_agent h delta) (agents w3) w3 = Inr w'"
    by (simp add: World2DGrid_process_agents_def)
  from process_loop [OF grid_turn this]
  show "st w' = tick_store h delta (agents w3) (st w3)" by blast
next
  show "trace (Agent_update h delta a w) =
           trace w @ EvUpdate a # map (EvPerceive a) (map snd (perceptions (ags (st w) a)))
             @ map (EvExecute a)
                 (fst (think h a delta
                    (fold (\<lambda>p. perceive h p a) (map snd (perceptions (ags (st w) a))) (st w))))"
    by (simp add: Agent_update_eq Agent_update_events_def perceived_def agent_percepts_def)
next
  show "st (Agent_update h delta a w) =
           fold (\<lambda>act. execute h act a)
             (fst (think h a delta
                (fold (\<lambda>p. perceive h p a) (map snd (perceptions (ags (st w) a))) (st w))))
             (snd (think h a delta
                (fold (\<lambda>p. perceive h p a) (map snd (perceptions (ags (st w) a))) (st w))))"
    by (simp add: Agent_update_eq Agent_update_store_def perceived_def agent_percepts_def)
qed

text \<open>
  One tick of \<open>ex_world\<close>: the live agent 0 is updated, the dead agent 1 is removed
  together with its body.
\<close>

lemma ex_world_tick:
  "\<not> isl (World_update ex_hooks 1 ex_world)"
  "trace (projr (World_update ex_hooks 1 ex_world))
     = [EvUpdate 0, EvPerceive 0 (Perception ''see'' 0), EvExecute 0 (Action ''advance'' 0)]"
  "agents (projr (World_update ex_hooks 1 ex_world)) = [0]"
  "objects (projr (World_update ex_hooks 1 ex_world)) = [0]"
  "obj_x (objs (st (projr (World_update ex_hooks 1 ex_world))) 0) = 1"
  by (simp_all add: World_update_def World_process_agents_def Agent_update_def
      update_perceptions_def ex_world_def store1_def ex_hooks_def Agent_init_def
      Object_init_def Object_set_agent_def upd_obj_def upd_agent_def Object_update_def
      World_update_object_def
      World_remove_dead_agents_def remove_dead_agent_def World_remove_agent_def
      Agent_set_body_def World_remove_object_def Object_translate_def Let_def)

theorem tick_updates_live_agents_once_witness:
  "distinct (agents ex_world) \<and> \<not> paused ex_world
   \<and> \<not> isl (World_update ex_hooks 1 ex_world)
   \<and> agents ex_world = [0, 1] \<and> \<not> dead (ags (st ex_world) 0) \<and> dead (ags (st ex_world) 1)
   \<and> trace (projr (World_update ex_hooks 1 ex_world))
       = [EvUpdate 0, EvPerceive 0 (Perception ''see'' 0), EvExecute 0 (Action ''advance'' 0)]
   \<and> agents (projr (World_update ex_hooks 1 ex_world)) = [0]
   \<and> (\<exists>evs. trace (projr (World_update ex_hooks 1 ex_world)) = trace ex_world @ evs
          \<and> tick_spec ex_hooks 1 (st ex_world) (agents ex_world) evs
               (agents (projr (World_update ex_hooks 1 ex_world))))"
proof -
  have d: "distinct (agents ex_world)" "\<not> paused ex_world" "agents ex_world = [0, 1]"
    "\<not> dead (ags (st ex_world) 0)" "dead (ags (st ex_world) 1)"
    by (simp_all add: ex_world_def store1_def Agent_init_def)
  from ex_world_tick(1) have r: "World_update ex_hooks 1 ex_world
                        = Inr (projr (World_update ex_hooks 1 ex_world))"
    by (cases "World_update ex_hooks 1 ex_world") simp_all
  from tick_updates_live_agents_once [of ex_world ex_hooks 1] d(1,2) r
  have "\<exists>evs. trace (projr (World_update ex_hooks 1 ex_world)) = trace ex_world @ evs
          \<and> tick_spec ex_hooks 1 (st ex_world) (agents ex_world) evs
               (agents (projr (World_update ex_hooks 1 ex_world)))"
    by blast
  with ex_world_tick(1-3) d show ?thesis by blast
qed

text \<open>
  C6 as stated fails: \<^verbatim>\<open>add_agent\<close> does not look whether the agent is already in the
  world, and an agent that was added twice has \<^verbatim>\<open>update\<close> called twice in a tick.
\<close>

theorem agent_added_twice_updated_twice:
  "agents twice_world = [0, 0] \<and> \<not> paused twice_world
   \<and> \<not> dead (ags (st twice_world) 0)
   \<and> \<not> isl (World_update base_hooks 1 twice_world)
   \<and> count_list (trace (projr (World_update base_hooks 1 twice_world))) (EvUpdate 0) = 2"
  by (simp add: twice_world_def World_add_agent_def World_init_def store0_def
      pause_toggle_def upd_agent_def Agent_init_def Let_def World_add_object_def
      World_update_def World_process_agents_def Agent_update_def
      update_perceptions_def base_hooks_def World_remove_dead_agents_def)

section \<open>Bounds of the coordinates after a tick\<close>










lemma py_index_Inr: "py_index n i = Inr r \<Longrightarrow> r < n"
  by (auto simp add: py_index_def split: if_splits)

lemma grid_remove_Inr:
  assumes "grid_remove g i j ob = Inr g'"
  obtains r c where "py_index (length g) i = Inr r" "py_index (length (g ! r)) j = Inr c"
    "ob \<in> set (g ! r ! c)" "g' = g[r := (g ! r)[c := remove1 ob (g ! r ! c)]]"
  using assms by (auto simp add: grid_remove_def split: sum.splits if_splits)

lemma grid_append_Inr:
  assumes "grid_append g i j ob = Inr g'"
  obtains r c where "py_index (length g) i = Inr r" "py_index (length (g ! r)) j = Inr c"
    "g' = g[r := (g ! r)[c := g ! r ! c @ [ob]]]"
  using assms by (auto simp add: grid_append_def split: sum.splits)






lemma Object_update_others:
  assumes "update_moves_only_self h" "Object_update h delta ob s = Inr s'" "u \<noteq> ob"
  shows "obj_x (objs s' u) = obj_x (objs s u) \<and> obj_y (objs s' u) = obj_y (objs s u)"
proof (cases "obj_class (objs s ob)")
  case PlainObject
  with assms(2) show ?thesis by (simp add: Object_update_def)
next
  case SimplePhysicsObject
  with assms(2,3) show ?thesis
    by (auto simp add: Object_update_def upd_obj_def split: option.splits)
next
  case UserObject
  with assms(2) have "s' = user_update h delta ob s" by (simp add: Object_update_def)
  with assms(1,3) show ?thesis by (simp add: update_moves_only_self_def)
qed





lemma grid_update_object_Inr:
  assumes "grid_update_object h delta ob w = Inr w'"
  shows "\<exists>g s1 o' g'.
       grid_remove (grid w) (obj_row (st w) ob) (obj_col (st w) ob) ob = Inr g
     \<and> Object_update h delta ob (st w) = Inr s1
     \<and> grid_check_bounds (tor w) (grid_width w) (grid_height w) (objs s1 ob) = Inr o'
     \<and> grid_append g (obj_row (upd_obj ob (\<lambda>_. o') s1) ob)
           (obj_col (upd_obj ob (\<lambda>_. o') s1) ob) ob = Inr g'
     \<and> w' = w\<lparr>st := upd_obj ob (\<lambda>_. o') s1, grid := g'\<rparr>"
  using assms by (auto simp add: grid_update_object_def Let_def split: sum.splits)





lemmas run_simps = World2D_update_def World_process_agents_def World2D_init_def
  World_add_object_def pause_toggle_def store0_def store2_def store3_def
  SimplePhysicsObject_init_def Object_init_def Object_update_def
  SimplePhysicsObject_update_def check_bounds_def upd_obj_def
  World_update_object_def World2D_update_object_def
  World_remove_dead_agents_def Let_def base_hooks_def Agent_init_def
  World2DGrid_update_def World2DGrid_process_agents_def World2DGrid_init_def
  World2DGrid_add_object_def grid_check_bounds_def grid_append_def grid_remove_def
  grid_update_object_def obj_row_def obj_col_def py_round_def py_index_def







section \<open>The toroidal wrap-around\<close>

lemma py_round_range:
  assumes "- (1 / 2) \<le> v" "v < of_int n - 1 / 2"
  shows "0 \<le> py_round v \<and> py_round v < n"
proof -
  define f where "f = \<lfloor>v\<rfloor>"
  have f: "of_int f \<le> v" "v < of_int f + 1" unfolding f_def by linarith+
  consider "v - of_int f < 1 / 2" | "1 / 2 < v - of_int f" | "v - of_int f = 1 / 2"
    by linarith
  then show ?thesis
  proof cases
    case 1
    then have r: "py_round v = f" by (simp add: py_round_def f_def)
    from 1 assms have "(- 1 :: real) < of_int f" "(of_int f :: real) < of_int n"
      using f by linarith+
    then have "- 1 < f" "f < n" by linarith+
    with r show ?thesis by simp
  next
    case 2
    then have r: "py_round v = f + 1" by (simp add: py_round_def f_def)
    from 2 assms have "(- 2 :: real) < of_int f" "(of_int f :: real) < of_int n - 1"
      using f by linarith+
    then have "- 2 < f" "f < n - 1" by linarith+
    with r show ?thesis by simp
  next
    case 3
    then have r: "py_round v = (if even f then f else f + 1)"
      by (simp add: py_round_def f_def)
    from 3 assms have "(- 2 :: real) < of_int f" "(of_int f :: real) < of_int n - 1"
      using f by linarith+
    then have b: "- 2 < f" "f < n - 1" by linarith+
    have "f \<noteq> - 1" if "even f" using that by auto
    with b r show ?thesis by (auto simp add: less_le)
  qed
qed

lemma py_round_half_odd:
  assumes "odd n"
  shows "py_round (of_int n - 1 / 2) = n - 1"
proof -
  have "\<lfloor>of_int n - 1 / 2 :: real\<rfloor> = n - 1" by linarith
  with assms show ?thesis by (simp add: py_round_def)
qed

text \<open>
  What the toroidal check does achieve: the rounded \<open>x\<close> is in range unless the width
  is even and \<open>x\<close> is exactly \<open>width - 0.5\<close>.
\<close>

lemma tor_bounds_x:
  assumes "grid_check_bounds True wd ht ob = Inr ob'" "1 \<le> wd"
    "odd wd \<or> obj_x ob \<noteq> of_int wd - 1 / 2"
  shows "0 \<le> py_round (obj_x ob') \<and> py_round (obj_x ob') < wd"
proof (cases "of_int wd - 1 / 2 < obj_x ob \<or> obj_x ob < - (1 / 2)")
  case True
  with assms(1) have "obj_x ob' = of_int (py_round (obj_x ob) mod wd)"
    by (auto simp add: grid_check_bounds_def Let_def split: if_splits)
  with assms(2) show ?thesis by (simp add: py_round_of_int)
next
  case False
  with assms(1) have x: "obj_x ob' = obj_x ob"
    by (auto simp add: grid_check_bounds_def Let_def split: if_splits)
  show ?thesis
  proof (cases "obj_x ob = of_int wd - 1 / 2")
    case True
    with assms(3) have "odd wd" by simp
    from py_round_half_odd [OF this] True x assms(2) show ?thesis by simp
  next
    case False
    with \<open>\<not> (of_int wd - 1 / 2 < obj_x ob \<or> obj_x ob < - (1 / 2))\<close>
    have "- (1 / 2) \<le> obj_x ob" "obj_x ob < of_int wd - 1 / 2" by linarith+
    from py_round_range [OF this] x show ?thesis by simp
  qed
qed

text \<open>
  C2.  The claim is that the wrap-around keeps the rounded coordinates of every object
  of a toroidal grid inside the grid.  The code misses one value: in a grid of even
  width, \<open>x = width - 0.5\<close> is not wrapped (the test is \<^verbatim>\<open>obj.x > self._width - 0.5\<close>)
  and \<^verbatim>\<open>round\<close> takes it to \<open>width\<close>, ties going to the even neighbour.  Here the grid
  is 2 by 2 and the object is at (1.5, 0): \<^verbatim>\<open>add_object\<close> raises IndexError.
\<close>

theorem toroidal_half_cell_index_error:
  "tor tor_grid \<and> grid_width tor_grid = 2 \<and> grid_height tor_grid = 2
   \<and> obj_x (objs (st tor_grid) 0) = 3 / 2 \<and> obj_y (objs (st tor_grid) 0) = 0
   \<and> grid_check_bounds True 2 2 (objs (st tor_grid) 0) = Inr (objs (st tor_grid) 0)
   \<and> py_round (3 / 2) = 2
   \<and> World2DGrid_add_object 0 tor_grid = Inl IndexError"
  by (simp add: tor_grid_def store4_def run_simps numeral_2_eq_2)

section \<open>Removing what is not there\<close>

text \<open>
  The misuses that do end in a warning and nothing else: an agent that is not in the
  list, an object of a \<^verbatim>\<open>World\<close> that is not in the world or is a body, and an object of
  a \<^verbatim>\<open>World2DGrid\<close> that is a body.
\<close>

lemma removal_misuse_warns:
  "(a \<notin> set (agents w) \<longrightarrow>
      World_remove_agent a w
        = w\<lparr>st := print ''Warning: Trying to remove an agent that is not in the list.'' (st w)\<rparr>)
   \<and> (is_body (objs (st w) ob) \<or> ob \<notin> set (objects w) \<longrightarrow>
      World_remove_object ob w
        = w\<lparr>st := print remove_object_warning (st w)\<rparr>)
   \<and> (is_body (objs (st v) ob) \<longrightarrow>
      World2DGrid_remove_object ob v
        = Inr (v\<lparr>st := print remove_object_warning (st v)\<rparr>))"
  by (auto simp add: World_remove_agent_def World_remove_object_def
      World2DGrid_remove_object_def print_def Let_def)

text \<open>
  C3.  The claim is that removing an object that is not in the world prints a warning
  and raises nothing.  \<^verbatim>\<open>World2DGrid.remove_object\<close> does print the warning (in
  \<^verbatim>\<open>World.remove_object\<close>), but then, the object not being a body, goes on to
  \<^verbatim>\<open>self._grid[...][...].remove(obj)\<close>, and the object is not in that cell: ValueError.
  Here the grid is empty and the object was never added.
\<close>

theorem grid_remove_absent_object_raises:
  "\<not> is_body (objs (st empty_grid) 0) \<and> 0 \<notin> set (objects empty_grid)
   \<and> World2DGrid_remove_object 0 empty_grid = Inl ValueError"
  by (simp add: empty_grid_def World2DGrid_remove_object_def World_remove_object_def
      print_def run_simps numeral_2_eq_2)

section \<open>The grid and the object list\<close>

lemma cell_of_Some:
  "(cell_of nr nc s ob = Some (r, c))
     = (py_index nr (obj_row s ob) = Inr r \<and> py_index nc (obj_col s ob) = Inr c)"
  by (auto simp add: cell_of_def split: sum.splits)

lemma cell_of_range: "cell_of nr nc s ob = Some (r, c) \<Longrightarrow> r < nr \<and> c < nc"
  by (auto simp add: cell_of_Some dest: py_index_Inr)

lemma cell_of_cong:
  "obj_x (objs s' ob) = obj_x (objs s ob) \<Longrightarrow> obj_y (objs s' ob) = obj_y (objs s ob) \<Longrightarrow>
   cell_of nr nc s' ob = cell_of nr nc s ob"
proof -
  assume "obj_x (objs s' ob) = obj_x (objs s ob)" "obj_y (objs s' ob) = obj_y (objs s ob)"
  then have "obj_row s' ob = obj_row s ob" "obj_col s' ob = obj_col s ob"
    by (simp_all add: obj_row_def obj_col_def)
  then show ?thesis by (simp only: cell_of_def)
qed

lemma grid_ok_iff:
  "grid_ok w =
     (shape (grid w) (nat (grid_height w)) (nat (grid_width w)) \<and> distinct (objects w)
      \<and> cells_ok (nat (grid_height w)) (nat (grid_width w)) (grid w) (st w) (objects w) {}
      \<and> (\<forall>ob \<in> set (objects w).
            cell_of (nat (grid_height w)) (nat (grid_width w)) (st w) ob \<noteq> None))"
  (is "_ = (?sh \<and> ?d \<and> ?c \<and> ?p)")
proof
  assume g: "grid_ok w"
  then have sh: ?sh and d: ?d
    and sub: "\<And>r c ob. r < nat (grid_height w) \<Longrightarrow> c < nat (grid_width w) \<Longrightarrow>
       distinct (grid w ! r ! c) \<and> (ob \<in> set (grid w ! r ! c) \<longrightarrow> ob \<in> set (objects w)
         \<and> cell_of (nat (grid_height w)) (nat (grid_width w)) (st w) ob = Some (r, c))"
    and pl: "\<And>ob. ob \<in> set (objects w) \<Longrightarrow>
       (case cell_of (nat (grid_height w)) (nat (grid_width w)) (st w) ob of
              None \<Rightarrow> False | Some (r, c) \<Rightarrow> ob \<in> set (grid w ! r ! c))"
    by (simp_all add: grid_ok_def)
  have ?p
  proof
    fix ob assume "ob \<in> set (objects w)"
    from pl [OF this]
    show "cell_of (nat (grid_height w)) (nat (grid_width w)) (st w) ob \<noteq> None"
      by (cases "cell_of (nat (grid_height w)) (nat (grid_width w)) (st w) ob") simp_all
  qed
  moreover have ?c
    unfolding cells_ok_def
  proof (intro allI impI conjI)
    fix r c assume "r < nat (grid_height w)" "c < nat (grid_width w)"
    then show "distinct (grid w ! r ! c)" using sub by blast
  next
    fix r c ob assume rc: "r < nat (grid_height w)" "c < nat (grid_width w)"
    show "(ob \<in> set (grid w ! r ! c))
       = (ob \<in> set (objects w) \<and> ob \<notin> {}
          \<and> cell_of (nat (grid_height w)) (nat (grid_width w)) (st w) ob = Some (r, c))"
      using sub [OF rc, of ob] pl [of ob] by (auto split: option.splits)
  qed
  ultimately show "?sh \<and> ?d \<and> ?c \<and> ?p" using sh d by simp
next
  assume a: "?sh \<and> ?d \<and> ?c \<and> ?p"
  then have c: "\<And>r c ob. r < nat (grid_height w) \<Longrightarrow> c < nat (grid_width w) \<Longrightarrow>
       distinct (grid w ! r ! c) \<and> ((ob \<in> set (grid w ! r ! c))
       = (ob \<in> set (objects w)
          \<and> cell_of (nat (grid_height w)) (nat (grid_width w)) (st w) ob = Some (r, c)))"
    by (simp add: cells_ok_def)
  have "case cell_of (nat (grid_height w)) (nat (grid_width w)) (st w) ob of
              None \<Rightarrow> False | Some (r, c) \<Rightarrow> ob \<in> set (grid w ! r ! c)"
    if "ob \<in> set (objects w)" for ob
  proof -
    from a that have "cell_of (nat (grid_height w)) (nat (grid_width w)) (st w) ob \<noteq> None"
      by blast
    then obtain r c' where
      s: "cell_of (nat (grid_height w)) (nat (grid_width w)) (st w) ob = Some (r, c')"
      by (cases "cell_of (nat (grid_height w)) (nat (grid_width w)) (st w) ob") auto
    from cell_of_range [OF s] c [of r c' ob] that s show ?thesis by simp
  qed
  with a c show "grid_ok w" by (simp add: grid_ok_def)
qed

lemma grid_remove_cells:
  assumes sh: "shape g nr nc" and rm: "grid_remove g i j ob = Inr g'"
  shows "\<exists>r c. py_index nr i = Inr r \<and> py_index nc j = Inr c \<and> r < nr \<and> c < nc
     \<and> ob \<in> set (g ! r ! c) \<and> shape g' nr nc
     \<and> (\<forall>r' < nr. \<forall>c' < nc.
           g' ! r' ! c' = (if r' = r \<and> c' = c then remove1 ob (g ! r ! c) else g ! r' ! c'))"
proof -
  from rm obtain r c where r: "py_index (length g) i = Inr r"
    and c: "py_index (length (g ! r)) j = Inr c" and m: "ob \<in> set (g ! r ! c)"
    and g': "g' = g[r := (g ! r)[c := remove1 ob (g ! r ! c)]]"
    by (rule grid_remove_Inr)
  from sh py_index_Inr [OF r] have rl: "r < nr" and l: "length g = nr" "length (g ! r) = nc"
    by (simp_all add: shape_def)
  from py_index_Inr [OF c] l have cl: "c < nc" by simp
  have "shape g' nr nc" unfolding g' using sh by (rule shape_set_cell)
  moreover have "\<forall>r' < nr. \<forall>c' < nc.
      g' ! r' ! c' = (if r' = r \<and> c' = c then remove1 ob (g ! r ! c) else g ! r' ! c')"
    unfolding g' using nth_set_cell [OF sh rl cl] by blast
  ultimately show ?thesis using r c l rl cl m by auto
qed

lemma grid_append_cells:
  assumes sh: "shape g nr nc" and ap: "grid_append g i j ob = Inr g'"
  shows "\<exists>r c. py_index nr i = Inr r \<and> py_index nc j = Inr c \<and> r < nr \<and> c < nc
     \<and> shape g' nr nc
     \<and> (\<forall>r' < nr. \<forall>c' < nc.
           g' ! r' ! c' = (if r' = r \<and> c' = c then g ! r ! c @ [ob] else g ! r' ! c'))"
proof -
  from ap obtain r c where r: "py_index (length g) i = Inr r"
    and c: "py_index (length (g ! r)) j = Inr c"
    and g': "g' = g[r := (g ! r)[c := g ! r ! c @ [ob]]]"
    by (rule grid_append_Inr)
  from sh py_index_Inr [OF r] have rl: "r < nr" and l: "length g = nr" "length (g ! r) = nc"
    by (simp_all add: shape_def)
  from py_index_Inr [OF c] l have cl: "c < nc" by simp
  have "shape g' nr nc" unfolding g' using sh by (rule shape_set_cell)
  moreover have "\<forall>r' < nr. \<forall>c' < nc.
      g' ! r' ! c' = (if r' = r \<and> c' = c then g ! r ! c @ [ob] else g ! r' ! c')"
    unfolding g' using nth_set_cell [OF sh rl cl] by blast
  ultimately show ?thesis using r c l rl cl by auto
qed

lemma cells_remove:
  assumes sh: "shape g nr nc" and ok: "cells_ok nr nc g s obs {}"
    and rm: "grid_remove g (obj_row s ob) (obj_col s ob) ob = Inr g'"
  shows "shape g' nr nc \<and> cells_ok nr nc g' s obs {ob} \<and> ob \<in> set obs"
proof -
  from grid_remove_cells [OF sh rm] obtain r c where r: "py_index nr (obj_row s ob) = Inr r"
    and c: "py_index nc (obj_col s ob) = Inr c" and rc: "r < nr" "c < nc"
    and m: "ob \<in> set (g ! r ! c)" and sh': "shape g' nr nc"
    and nth: "\<And>r' c'. r' < nr \<Longrightarrow> c' < nc \<Longrightarrow>
       g' ! r' ! c' = (if r' = r \<and> c' = c then remove1 ob (g ! r ! c) else g ! r' ! c')"
    by blast
  from r c have co: "cell_of nr nc s ob = Some (r, c)" by (simp add: cell_of_Some)
  from ok have d: "\<And>r' c'. r' < nr \<Longrightarrow> c' < nc \<Longrightarrow> distinct (g ! r' ! c')"
    and mem: "\<And>r' c' o'. r' < nr \<Longrightarrow> c' < nc \<Longrightarrow>
       (o' \<in> set (g ! r' ! c')) = (o' \<in> set obs \<and> cell_of nr nc s o' = Some (r', c'))"
    by (simp_all add: cells_ok_def)
  from mem [OF rc, of ob] m have inobs: "ob \<in> set obs" by simp
  have "cells_ok nr nc g' s obs {ob}"
    unfolding cells_ok_def
  proof (intro allI impI conjI)
    fix r' c' assume a: "r' < nr" "c' < nc"
    show "distinct (g' ! r' ! c')" using nth [OF a] d [OF a] d [OF rc] by simp
  next
    fix r' c' o' assume a: "r' < nr" "c' < nc"
    show "(o' \<in> set (g' ! r' ! c'))
            = (o' \<in> set obs \<and> o' \<notin> {ob} \<and> cell_of nr nc s o' = Some (r', c'))"
    proof (cases "r' = r \<and> c' = c")
      case True
      have "g' ! r ! c = remove1 ob (g ! r ! c)" using nth [OF rc] by simp
      with d [OF rc] mem [OF rc, of o'] True show ?thesis by auto
    next
      case False
      have e: "g' ! r' ! c' = g ! r' ! c'" by (simp only: nth [OF a] False if_False)
      have "o' \<noteq> ob" if "cell_of nr nc s o' = Some (r', c')"
        using that co False by auto
      with mem [OF a, of o'] e show ?thesis by auto
    qed
  qed
  with sh' inobs show ?thesis by simp
qed

lemma cells_move:
  assumes ok: "cells_ok nr nc g s obs ex"
    and same: "\<And>ob. ob \<in> set obs \<Longrightarrow> ob \<notin> ex \<Longrightarrow>
          obj_x (objs s' ob) = obj_x (objs s ob) \<and> obj_y (objs s' ob) = obj_y (objs s ob)"
  shows "cells_ok nr nc g s' obs ex"
  unfolding cells_ok_def
proof (intro allI impI conjI)
  fix r c assume a: "r < nr" "c < nc"
  note k = ok [unfolded cells_ok_def, rule_format, OF a]
  from k show "distinct (g ! r ! c)" by (rule conjunct1)
next
  fix r c ob assume a: "r < nr" "c < nc"
  note k = ok [unfolded cells_ok_def, rule_format, OF a]
  from k have "\<forall>ob. (ob \<in> set (g ! r ! c))
      = (ob \<in> set obs \<and> ob \<notin> ex \<and> cell_of nr nc s ob = Some (r, c))"
    by (rule conjunct2)
  then have m: "(ob \<in> set (g ! r ! c))
      = (ob \<in> set obs \<and> ob \<notin> ex \<and> cell_of nr nc s ob = Some (r, c))"
    by (rule spec)
  show "(ob \<in> set (g ! r ! c))
      = (ob \<in> set obs \<and> ob \<notin> ex \<and> cell_of nr nc s' ob = Some (r, c))"
  proof (cases "ob \<in> set obs \<and> ob \<notin> ex")
    case True
    then have x: "obj_x (objs s' ob) = obj_x (objs s ob)" "obj_y (objs s' ob) = obj_y (objs s ob)"
      using same [of ob] by simp_all
    have "cell_of nr nc s' ob = cell_of nr nc s ob" by (rule cell_of_cong [OF x])
    then show ?thesis by (simp only: m)
  next
    case False
    then have "ob \<notin> set (g ! r ! c)" by (simp only: m) blast
    with False show ?thesis by blast
  qed
qed

lemma cells_append:
  assumes sh: "shape g nr nc" and ok: "cells_ok nr nc g s obs {ob}" and inobs: "ob \<in> set obs"
    and ap: "grid_append g (obj_row s ob) (obj_col s ob) ob = Inr g'"
  shows "shape g' nr nc \<and> cells_ok nr nc g' s obs {} \<and> cell_of nr nc s ob \<noteq> None"
proof -
  from grid_append_cells [OF sh ap] obtain r c where r: "py_index nr (obj_row s ob) = Inr r"
    and c: "py_index nc (obj_col s ob) = Inr c" and rc: "r < nr" "c < nc"
    and sh': "shape g' nr nc"
    and nth: "\<And>r' c'. r' < nr \<Longrightarrow> c' < nc \<Longrightarrow>
       g' ! r' ! c' = (if r' = r \<and> c' = c then g ! r ! c @ [ob] else g ! r' ! c')"
    by blast
  from r c have co: "cell_of nr nc s ob = Some (r, c)" by (simp add: cell_of_Some)
  from ok have d: "\<And>r' c'. r' < nr \<Longrightarrow> c' < nc \<Longrightarrow> distinct (g ! r' ! c')"
    and mem: "\<And>r' c' o'. r' < nr \<Longrightarrow> c' < nc \<Longrightarrow>
       (o' \<in> set (g ! r' ! c'))
         = (o' \<in> set obs \<and> o' \<noteq> ob \<and> cell_of nr nc s o' = Some (r', c'))"
    by (simp_all add: cells_ok_def)
  have here: "g' ! r ! c = g ! r ! c @ [ob]" using nth [OF rc] by simp
  have notin: "ob \<notin> set (g ! r ! c)" using mem [OF rc, of ob] by simp
  have "cells_ok nr nc g' s obs {}"
    unfolding cells_ok_def
  proof (intro allI impI conjI)
    fix r' c' assume a: "r' < nr" "c' < nc"
    show "distinct (g' ! r' ! c')"
    proof (cases "r' = r \<and> c' = c")
      case True
      with here d [OF rc] notin show ?thesis by simp
    next
      case False
      with nth [OF a] d [OF a] show ?thesis by simp
    qed
  next
    fix r' c' o' assume a: "r' < nr" "c' < nc"
    show "(o' \<in> set (g' ! r' ! c'))
            = (o' \<in> set obs \<and> o' \<notin> {} \<and> cell_of nr nc s o' = Some (r', c'))"
    proof (cases "r' = r \<and> c' = c")
      case True
      have "(o' \<in> set (g' ! r ! c)) = (o' \<in> set (g ! r ! c) \<or> o' = ob)"
        by (auto simp add: here)
      also have "\<dots> = (o' \<in> set obs \<and> cell_of nr nc s o' = Some (r, c))"
      proof (cases "o' = ob")
        case True
        with co inobs show ?thesis by simp
      next
        case False
        with mem [OF rc, of o'] show ?thesis by simp
      qed
      finally show ?thesis using True by simp
    next
      case False
      have e: "g' ! r' ! c' = g ! r' ! c'" by (simp only: nth [OF a] False if_False)
      have "o' \<noteq> ob" if "cell_of nr nc s o' = Some (r', c')"
        using that co False by auto
      with mem [OF a, of o'] e show ?thesis by auto
    qed
  qed
  with sh' co show ?thesis by simp
qed

lemma efold_inv:
  assumes "\<And>v s s'. P s \<Longrightarrow> F v s = Inr s' \<Longrightarrow> P s'" "P s" "efold F vs s = Inr s'"
  shows "P s'"
  using assms(2,3)
proof (induction vs arbitrary: s)
  case Nil
  then show ?case by simp
next
  case (Cons v vs)
  then obtain s1 where "F v s = Inr s1" "efold F vs s1 = Inr s'"
    by (auto split: sum.splits)
  with Cons.IH assms(1) Cons.prems(1) show ?case by blast
qed

lemma fold_rel:
  assumes "\<And>s. R s s" "\<And>s t u. R s t \<Longrightarrow> R t u \<Longrightarrow> R s u" "\<And>v s. R s (F v s)"
  shows "R s (fold F vs s)"
proof (induction vs arbitrary: s)
  case Nil
  then show ?case using assms(1) by simp
next
  case (Cons v vs)
  from assms(2) [OF assms(3) [of s v] Cons.IH [of "F v s"]] show ?case by simp
qed

lemma moved_own_body_refl: "moved_own_body a s s"
  by (simp add: moved_own_body_def)

lemma moved_own_body_trans:
  "moved_own_body a s t \<Longrightarrow> moved_own_body a t u \<Longrightarrow> moved_own_body a s u"
  by (simp add: moved_own_body_def)

lemma Agent_update_store_moved:
  assumes "moves_only_own_body h"
  shows "moved_own_body a s (Agent_update_store h delta a s)"
proof -
  have p: "moved_own_body a s (perceived h a s)"
    unfolding perceived_def
    by (rule fold_rel [where R = "moved_own_body a"])
       (use assms in \<open>auto simp add: moves_only_own_body_def moved_own_body_refl
          intro: moved_own_body_trans\<close>)
  have t: "moved_own_body a (perceived h a s) (snd (think h a delta (perceived h a s)))"
    using assms by (simp add: moves_only_own_body_def)
  have e: "moved_own_body a (snd (think h a delta (perceived h a s)))
             (Agent_update_store h delta a s)"
    unfolding Agent_update_store_def
    by (rule fold_rel [where R = "moved_own_body a"])
       (use assms in \<open>auto simp add: moves_only_own_body_def moved_own_body_refl
          intro: moved_own_body_trans\<close>)
  from p t e show ?thesis by (blast intro: moved_own_body_trans)
qed

text \<open>The invariant looks at the lists and at the coordinates only.\<close>

lemma grid_ok_transfer:
  fixes w w' :: "'a World2DGrid_scheme"
  assumes ok: "grid_ok w" and eq: "objects w' = objects w" "grid w' = grid w"
    "grid_width w' = grid_width w" "grid_height w' = grid_height w"
    and co: "\<And>ob. coords w' ob = coords w ob"
  shows "grid_ok w'"
proof -
  let ?nr = "nat (grid_height w)" and ?nc = "nat (grid_width w)"
  from ok have sh: "shape (grid w) ?nr ?nc" and d: "distinct (objects w)"
    and c: "cells_ok ?nr ?nc (grid w) (st w) (objects w) {}"
    and p: "\<forall>ob \<in> set (objects w). cell_of ?nr ?nc (st w) ob \<noteq> None"
    by (simp_all add: grid_ok_iff)
  have same: "obj_x (objs (st w') u) = obj_x (objs (st w) u)
              \<and> obj_y (objs (st w') u) = obj_y (objs (st w) u)" for u
    using co [of u] by (simp add: coords_def)
  have c': "cells_ok ?nr ?nc (grid w) (st w') (objects w) {}"
    by (rule cells_move [OF c]) (rule same)
  have "cell_of ?nr ?nc (st w') u \<noteq> None" if "u \<in> set (objects w)" for u
  proof -
    have "cell_of ?nr ?nc (st w') u = cell_of ?nr ?nc (st w) u"
      using same [of u] by (intro cell_of_cong) simp_all
    with p that show ?thesis by simp
  qed
  with sh d c' eq show ?thesis by (simp add: grid_ok_iff)
qed

lemma grid_ok_correspondence:
  assumes "grid_ok w"
  shows "grid_correspondence w"
  unfolding grid_correspondence_def
proof
  fix ob assume ob: "ob \<in> set (objects w)"
  let ?nr = "nat (grid_height w)" and ?nc = "nat (grid_width w)"
  from assms have c: "cells_ok ?nr ?nc (grid w) (st w) (objects w) {}"
    and p: "cell_of ?nr ?nc (st w) ob \<noteq> None"
    using ob by (simp_all add: grid_ok_iff)
  from p obtain r c' where s: "cell_of ?nr ?nc (st w) ob = Some (r, c')"
    by (cases "cell_of ?nr ?nc (st w) ob") auto
  have "(ob \<in> set (grid w ! r' ! c'')) = (r' = r \<and> c'' = c')"
    if "r' < ?nr" "c'' < ?nc" for r' c''
    using c [unfolded cells_ok_def, rule_format, OF that] ob s by auto
  with s show "\<exists>r c. cell_of ?nr ?nc (st w) ob = Some (r, c)
             \<and> (\<forall>r' < ?nr. \<forall>c' < ?nc. (ob \<in> set (grid w ! r' ! c')) = (r' = r \<and> c' = c))"
    by blast
qed

lemma grid_ok_init: "grid_ok (World2DGrid_init s wd ht c t)"
  by (simp add: grid_ok_def World2DGrid_init_def shape_def)

lemma grid_update_object_ok:
  fixes w :: "'a World2DGrid_scheme"
  assumes loc: "update_moves_only_self h" and ok: "grid_ok w"
    and u: "grid_update_object h delta ob w = Inr w'"
  shows "grid_ok w' \<and> objects w' = objects w"
proof -
  let ?nr = "nat (grid_height w)" and ?nc = "nat (grid_width w)"
  from ok have sh: "shape (grid w) ?nr ?nc" and d: "distinct (objects w)"
    and c: "cells_ok ?nr ?nc (grid w) (st w) (objects w) {}"
    and p: "\<forall>ob \<in> set (objects w). cell_of ?nr ?nc (st w) ob \<noteq> None"
    by (simp_all add: grid_ok_iff)
  from grid_update_object_Inr [OF u] obtain g s1 o' g' where
    g: "grid_remove (grid w) (obj_row (st w) ob) (obj_col (st w) ob) ob = Inr g"
    and up: "Object_update h delta ob (st w) = Inr s1"
    and g': "grid_append g (obj_row (upd_obj ob (\<lambda>_. o') s1) ob)
               (obj_col (upd_obj ob (\<lambda>_. o') s1) ob) ob = Inr g'"
    and w': "w' = w\<lparr>st := upd_obj ob (\<lambda>_. o') s1, grid := g'\<rparr>"
    by blast
  let ?s' = "upd_obj ob (\<lambda>_. o') s1"
  from cells_remove [OF sh c g] have sh1: "shape g ?nr ?nc"
    and c1: "cells_ok ?nr ?nc g (st w) (objects w) {ob}" and inobs: "ob \<in> set (objects w)"
    by simp_all
  have same: "obj_x (objs ?s' u) = obj_x (objs (st w) u)
              \<and> obj_y (objs ?s' u) = obj_y (objs (st w) u)" if "u \<noteq> ob" for u
    using Object_update_others [OF loc up that] that by (simp add: upd_obj_def)
  have c2: "cells_ok ?nr ?nc g ?s' (objects w) {ob}"
    by (rule cells_move [OF c1]) (use same in simp)
  from cells_append [OF sh1 c2 inobs g'] have sh': "shape g' ?nr ?nc"
    and c': "cells_ok ?nr ?nc g' ?s' (objects w) {}" and pob: "cell_of ?nr ?nc ?s' ob \<noteq> None"
    by simp_all
  have "cell_of ?nr ?nc ?s' u \<noteq> None" if "u \<in> set (objects w)" for u
  proof (cases "u = ob")
    case True
    with pob show ?thesis by simp
  next
    case False
    from same [OF False] have "cell_of ?nr ?nc ?s' u = cell_of ?nr ?nc (st w) u"
      by (intro cell_of_cong) simp_all
    with p that show ?thesis by simp
  qed
  with sh' d c' show ?thesis by (simp add: grid_ok_iff w')
qed

lemma grid_process_agent_ok:
  fixes w :: "'a World2DGrid_scheme"
  assumes loc: "moves_only_own_body h" and ok: "grid_ok w"
    and u: "grid_process_agent h delta a w = Inr w'"
  shows "grid_ok w'"
proof (cases "dead (ags (st w) a)")
  case True
  with u have "w' = w\<lparr>dead_agents := dead_agents w @ [a]\<rparr>"
    by (auto simp add: grid_process_agent_def)
  then show ?thesis by (intro grid_ok_transfer [OF ok]) (simp_all add: coords_def)
next
  case False
  let ?nr = "nat (grid_height w)" and ?nc = "nat (grid_width w)"
  from ok have sh: "shape (grid w) ?nr ?nc" and d: "distinct (objects w)"
    and c: "cells_ok ?nr ?nc (grid w) (st w) (objects w) {}"
    and p: "\<forall>ob \<in> set (objects w). cell_of ?nr ?nc (st w) ob \<noteq> None"
    by (simp_all add: grid_ok_iff)
  let ?s' = "Agent_update_store h delta a (st w)"
  from u False obtain b g b' g' where b: "body (ags (st w) a) = Some b"
    and g: "grid_remove (grid w) (obj_row (st w) b) (obj_col (st w) b) b = Inr g"
    and b': "body (ags ?s' a) = Some b'"
    and g': "grid_append g (obj_row ?s' b') (obj_col ?s' b') b' = Inr g'"
    and w': "w' = w\<lparr>st := ?s', trace := trace w @ Agent_update_events h delta a (st w),
                   grid := g'\<rparr>
           \<or> w' = w\<lparr>st := ?s', trace := trace w @ Agent_update_events h delta a (st w),
                   grid := g', dead_agents := dead_agents w @ [a]\<rparr>"
    by (auto simp add: grid_process_agent_def Agent_update_eq Let_def
        split: option.splits sum.splits if_splits)
  from Agent_update_store_moved [OF loc, of a "st w" delta] b
  have bb: "body (ags ?s' a) = Some b"
    and same: "\<And>u. u \<noteq> b \<Longrightarrow> obj_x (objs ?s' u) = obj_x (objs (st w) u)
                 \<and> obj_y (objs ?s' u) = obj_y (objs (st w) u)"
    by (simp_all add: moved_own_body_def)
  from bb b' have e: "b' = b" by simp
  from cells_remove [OF sh c g] have sh1: "shape g ?nr ?nc"
    and c1: "cells_ok ?nr ?nc g (st w) (objects w) {b}" and inobs: "b \<in> set (objects w)"
    by simp_all
  have c2: "cells_ok ?nr ?nc g ?s' (objects w) {b}"
    by (rule cells_move [OF c1]) (use same in simp)
  from cells_append [OF sh1 c2 inobs g' [unfolded e]] have sh': "shape g' ?nr ?nc"
    and c': "cells_ok ?nr ?nc g' ?s' (objects w) {}" and pob: "cell_of ?nr ?nc ?s' b \<noteq> None"
    by simp_all
  have "cell_of ?nr ?nc ?s' u \<noteq> None" if "u \<in> set (objects w)" for u
  proof (cases "u = b")
    case True
    with pob show ?thesis by simp
  next
    case False
    from same [OF False] have "cell_of ?nr ?nc ?s' u = cell_of ?nr ?nc (st w) u"
      by (intro cell_of_cong) simp_all
    with p that show ?thesis by simp
  qed
  with sh' d c' w' show ?thesis by (auto simp add: grid_ok_iff)
qed

lemma cells_ok_add:
  assumes "cells_ok nr nc g s obs {}" "ob \<notin> set obs"
  shows "cells_ok nr nc g s (obs @ [ob]) {ob}"
  unfolding cells_ok_def
proof (intro allI impI conjI)
  fix r c assume a: "r < nr" "c < nc"
  from assms(1) [unfolded cells_ok_def, rule_format, OF a]
  show "distinct (g ! r ! c)" by (rule conjunct1)
next
  fix r c u assume a: "r < nr" "c < nc"
  from assms(1) [unfolded cells_ok_def, rule_format, OF a]
  have "(u \<in> set (g ! r ! c)) = (u \<in> set obs \<and> u \<notin> {} \<and> cell_of nr nc s u = Some (r, c))"
    by blast
  with assms(2)
  show "(u \<in> set (g ! r ! c))
          = (u \<in> set (obs @ [ob]) \<and> u \<notin> {ob} \<and> cell_of nr nc s u = Some (r, c))"
    by auto
qed

lemma cells_ok_del:
  assumes "cells_ok nr nc g s obs {ob}" "distinct obs"
  shows "cells_ok nr nc g s (remove1 ob obs) {}"
  unfolding cells_ok_def
proof (intro allI impI conjI)
  fix r c assume a: "r < nr" "c < nc"
  from assms(1) [unfolded cells_ok_def, rule_format, OF a]
  show "distinct (g ! r ! c)" by (rule conjunct1)
next
  fix r c u assume a: "r < nr" "c < nc"
  from assms(1) [unfolded cells_ok_def, rule_format, OF a]
  have "(u \<in> set (g ! r ! c)) = (u \<in> set obs \<and> u \<notin> {ob} \<and> cell_of nr nc s u = Some (r, c))"
    by blast
  with assms(2)
  show "(u \<in> set (g ! r ! c))
          = (u \<in> set (remove1 ob obs) \<and> u \<notin> {} \<and> cell_of nr nc s u = Some (r, c))"
    by auto
qed

lemma World2DGrid_add_object_ok:
  fixes w :: "'a World2DGrid_scheme"
  assumes ok: "grid_ok w" and new: "ob \<notin> set (objects w)"
    and u: "World2DGrid_add_object ob w = Inr w'"
  shows "grid_ok w'"
proof -
  let ?nr = "nat (grid_height w)" and ?nc = "nat (grid_width w)"
  from ok have sh: "shape (grid w) ?nr ?nc" and d: "distinct (objects w)"
    and c: "cells_ok ?nr ?nc (grid w) (st w) (objects w) {}"
    and p: "\<forall>ob \<in> set (objects w). cell_of ?nr ?nc (st w) ob \<noteq> None"
    by (simp_all add: grid_ok_iff)
  from u obtain o' g' where
    g': "grid_append (grid w) (obj_row (upd_obj ob (\<lambda>_. o') (st w)) ob)
               (obj_col (upd_obj ob (\<lambda>_. o') (st w)) ob) ob = Inr g'"
    and w': "w' = w\<lparr>st := upd_obj ob (\<lambda>_. o') (st w), objects := objects w @ [ob],
                    grid := g'\<rparr>"
    by (auto simp add: World2DGrid_add_object_def World_add_object_def Let_def
        split: sum.splits)
  let ?s' = "upd_obj ob (\<lambda>_. o') (st w)"
  have same: "obj_x (objs ?s' u) = obj_x (objs (st w) u)
              \<and> obj_y (objs ?s' u) = obj_y (objs (st w) u)" if "u \<noteq> ob" for u
    using that by (simp add: upd_obj_def)
  have c1: "cells_ok ?nr ?nc (grid w) ?s' (objects w) {}"
  proof (rule cells_move [OF c])
    fix u assume "u \<in> set (objects w)"
    with new have "u \<noteq> ob" by auto
    from same [OF this]
    show "obj_x (objs ?s' u) = obj_x (objs (st w) u)
              \<and> obj_y (objs ?s' u) = obj_y (objs (st w) u)" .
  qed
  from cells_append [OF sh cells_ok_add [OF c1 new] _ g']
  have sh': "shape g' ?nr ?nc" and c': "cells_ok ?nr ?nc g' ?s' (objects w @ [ob]) {}"
    and pob: "cell_of ?nr ?nc ?s' ob \<noteq> None"
    by simp_all
  have "cell_of ?nr ?nc ?s' u \<noteq> None" if "u \<in> set (objects w @ [ob])" for u
  proof (cases "u = ob")
    case True
    with pob show ?thesis by simp
  next
    case False
    from same [OF False] have "cell_of ?nr ?nc ?s' u = cell_of ?nr ?nc (st w) u"
      by (intro cell_of_cong) simp_all
    with p that False show ?thesis by simp
  qed
  with sh' d new c' show ?thesis by (simp add: grid_ok_iff w')
qed

lemma World2DGrid_remove_object_ok:
  fixes w :: "'a World2DGrid_scheme"
  assumes ok: "grid_ok w" and u: "World2DGrid_remove_object ob w = Inr w'"
  shows "grid_ok w'"
proof -
  let ?nr = "nat (grid_height w)" and ?nc = "nat (grid_width w)"
  from ok have sh: "shape (grid w) ?nr ?nc" and d: "distinct (objects w)"
    and c: "cells_ok ?nr ?nc (grid w) (st w) (objects w) {}"
    and p: "\<forall>ob \<in> set (objects w). cell_of ?nr ?nc (st w) ob \<noteq> None"
    by (simp_all add: grid_ok_iff)
  consider (body) "is_body (objs (st w) ob)"
    | (there) "\<not> is_body (objs (st w) ob)" "ob \<in> set (objects w)"
    | (absent) "\<not> is_body (objs (st w) ob)" "ob \<notin> set (objects w)"
    by blast
  then show ?thesis
  proof cases
    case body
    with u have "w' = w\<lparr>st := print remove_object_warning (st w)\<rparr>"
      by (simp add: World2DGrid_remove_object_def World_remove_object_def print_def Let_def)
    then show ?thesis
      by (intro grid_ok_transfer [OF ok]) (simp_all add: coords_def print_def)
  next
    case there
    with u obtain g where
      g: "grid_remove (grid w) (obj_row (st w) ob) (obj_col (st w) ob) ob = Inr g"
      and w': "w' = w\<lparr>objects := remove1 ob (objects w), grid := g\<rparr>"
      by (auto simp add: World2DGrid_remove_object_def World_remove_object_def Let_def
          split: sum.splits)
    from cells_remove [OF sh c g] have sh1: "shape g ?nr ?nc"
      and c1: "cells_ok ?nr ?nc g (st w) (objects w) {ob}" by simp_all
    from cells_ok_del [OF c1 d] p d sh1 show ?thesis
      by (auto simp add: grid_ok_iff w')
  next
    case absent
    let ?s1 = "print remove_object_warning (st w)"
    have rc: "obj_row ?s1 ob = obj_row (st w) ob" "obj_col ?s1 ob = obj_col (st w) ob"
      by (simp_all add: obj_row_def obj_col_def print_def)
    from absent u obtain g where
      "grid_remove (grid w) (obj_row ?s1 ob) (obj_col ?s1 ob) ob = Inr g"
      by (auto simp add: World2DGrid_remove_object_def World_remove_object_def Let_def
          print_def split: sum.splits)
    then have "grid_remove (grid w) (obj_row (st w) ob) (obj_col (st w) ob) ob = Inr g"
      by (simp only: rc)
    from cells_remove [OF sh c this] absent show ?thesis by simp
  qed
qed

lemma remove_dead_agent_ok:
  fixes w :: "'a World2DGrid_scheme"
  assumes ok: "grid_ok w" and u: "remove_dead_agent World2DGrid_remove_object a w = Inr w'"
  shows "grid_ok w'"
proof -
  have 1: "grid_ok (World_remove_agent a w\<lparr>st := upd_obj b (Object_set_agent None)
             (Agent_set_body a None (st (World_remove_agent a w)))\<rparr>)" for b
    by (intro grid_ok_transfer [OF ok])
       (simp_all add: coords_def World_remove_agent_def upd_obj_def upd_agent_def
          Agent_set_body_def Object_set_agent_def print_def)
  from u obtain b where
    "w' = World_remove_agent a w\<lparr>st := upd_obj b (Object_set_agent None)
             (Agent_set_body a None (st (World_remove_agent a w)))\<rparr>
     \<or> World2DGrid_remove_object b (World_remove_agent a w\<lparr>st := upd_obj b
             (Object_set_agent None)
             (Agent_set_body a None (st (World_remove_agent a w)))\<rparr>) = Inr w'"
    by (auto simp add: remove_dead_agent_def Let_def split: option.splits if_splits)
  then show ?thesis
    using 1 [of b] World2DGrid_remove_object_ok by blast
qed

lemma World_remove_dead_agents_ok:
  fixes w :: "'a World2DGrid_scheme"
  assumes ok: "grid_ok w"
    and u: "World_remove_dead_agents World2DGrid_remove_object w = Inr w'"
  shows "grid_ok w'"
proof -
  from u obtain w1 where
    1: "efold (remove_dead_agent World2DGrid_remove_object) (dead_agents w) w = Inr w1"
    and 2: "w' = w1\<lparr>dead_agents := []\<rparr>"
    by (auto simp add: World_remove_dead_agents_def split: sum.splits)
  have "grid_ok w1"
    by (rule efold_inv [where P = grid_ok, OF _ ok 1]) (rule remove_dead_agent_ok)
  then show ?thesis
    unfolding 2 by (rule grid_ok_transfer) (simp_all add: coords_def)
qed

lemma World2DGrid_process_agents_ok:
  fixes w :: "'a World2DGrid_scheme"
  assumes "moves_only_own_body h" "grid_ok w"
    "World2DGrid_process_agents h delta w = Inr w'"
  shows "grid_ok w'"
  by (rule efold_inv [where P = grid_ok and F = "grid_process_agent h delta"
        and vs = "agents w" and s = w])
     (use assms in \<open>auto simp add: World2DGrid_process_agents_def
        intro: grid_process_agent_ok\<close>)

lemma World2DGrid_update_ok:
  fixes w :: "'a World2DGrid_scheme"
  assumes loc: "moves_only_own_body h" and loc': "update_moves_only_self h"
    and ok: "grid_ok w" and u: "World2DGrid_update h delta w = Inr w'"
  shows "grid_ok w'"
proof (cases "paused w")
  case True
  with u ok show ?thesis by (simp add: World2DGrid_update_def)
next
  case False
  with u obtain v1 v2 where p: "World2DGrid_process_agents h delta w = Inr v1"
    and o: "efold (grid_update_object h delta) (objects v1) v1 = Inr v2"
    and r: "World_remove_dead_agents World2DGrid_remove_object v2 = Inr w'"
    by (auto simp add: World2DGrid_update_def split: sum.splits)
  from World2DGrid_process_agents_ok [OF loc ok p] have 1: "grid_ok v1" .
  have "grid_ok v2"
    by (rule efold_inv [where P = grid_ok, OF _ 1 o]) (simp add: grid_update_object_ok [OF loc'])
  from World_remove_dead_agents_ok [OF this r] show ?thesis .
qed

text \<open>
  C1 (as amended).  The constructor of \<^verbatim>\<open>World2DGrid\<close> establishes the invariant
  \<open>grid_ok\<close>, under which every object of the object list is in exactly one cell list,
  the one that \<^verbatim>\<open>_grid[round(obj.y)][round(obj.x)]\<close> denotes.  The invariant is kept by
  \<^verbatim>\<open>add_object\<close> of an object that is not yet in the world and by \<^verbatim>\<open>remove_object\<close>;
  by \<^verbatim>\<open>process_agents\<close> when the methods of an agent move no object but the body of
  that agent and leave it its body; and by \<^verbatim>\<open>update\<close> when, in addition, the
  \<^verbatim>\<open>update\<close> method of an object moves no other object; each time provided that the
  operation returns.
\<close>

theorem grid_correspondence_preserved:
  "grid_ok (World2DGrid_init s wd ht cl t)
   \<and> (grid_ok w \<longrightarrow> grid_correspondence w)
   \<and> (grid_ok w \<and> ob \<notin> set (objects w) \<and> World2DGrid_add_object ob w = Inr w1
        \<longrightarrow> grid_ok w1)
   \<and> (grid_ok w \<and> World2DGrid_remove_object ob w = Inr w2 \<longrightarrow> grid_ok w2)
   \<and> (grid_ok w \<and> moves_only_own_body h \<and> World2DGrid_process_agents h delta w = Inr w3
        \<longrightarrow> grid_ok w3)
   \<and> (grid_ok w \<and> moves_only_own_body h \<and> update_moves_only_self h
        \<and> World2DGrid_update h delta w = Inr w4
        \<longrightarrow> grid_ok w4)"
  using grid_ok_init grid_ok_correspondence World2DGrid_add_object_ok
    World2DGrid_remove_object_ok World2DGrid_process_agents_ok World2DGrid_update_ok
  by blast

text \<open>
  One tick of \<open>agents_grid\<close>: the body of the live agent 0 moves from cell (0, 0) to
  cell (0, 1), out of which the body of the dead agent 1 is taken.
\<close>

lemma agents_grid_tick:
  "\<not> isl (World2DGrid_update ex_hooks 1 agents_grid)"
  "grid (projr (World2DGrid_update ex_hooks 1 agents_grid)) = [[[], [0], []], [[], [], []]]"
  "objects (projr (World2DGrid_update ex_hooks 1 agents_grid)) = [0]"
  "agents (projr (World2DGrid_update ex_hooks 1 agents_grid)) = [0]"
  by (simp_all add: agents_grid_def store1_def ex_hooks_def grid_process_agent_def
      Agent_update_def update_perceptions_def Object_set_agent_def Object_translate_def
      remove_dead_agent_def World_remove_agent_def Agent_set_body_def upd_agent_def
      World2DGrid_remove_object_def World_remove_object_def run_simps)

theorem grid_correspondence_preserved_witness:
  "grid_ok agents_grid \<and> moves_only_own_body ex_hooks \<and> update_moves_only_self ex_hooks
   \<and> \<not> paused agents_grid
   \<and> grid agents_grid = [[[0], [1], []], [[], [], []]]
   \<and> \<not> isl (World2DGrid_update ex_hooks 1 agents_grid)
   \<and> grid (projr (World2DGrid_update ex_hooks 1 agents_grid))
       = [[[], [0], []], [[], [], []]]
   \<and> objects (projr (World2DGrid_update ex_hooks 1 agents_grid)) = [0]
   \<and> grid_ok (projr (World2DGrid_update ex_hooks 1 agents_grid))
   \<and> grid_correspondence (projr (World2DGrid_update ex_hooks 1 agents_grid))"
proof -
  have ok: "grid_ok agents_grid"
    by (simp add: grid_ok_def agents_grid_def shape_def cell_of_def store1_def
        Object_set_agent_def run_simps numeral_2_eq_2 numeral_3_eq_3 less_Suc_eq)
  have loc: "moves_only_own_body ex_hooks"
    by (simp add: moves_only_own_body_def moved_own_body_def ex_hooks_def upd_obj_def
        Object_translate_def split: option.split)
  have loc': "update_moves_only_self ex_hooks"
    by (simp add: update_moves_only_self_def ex_hooks_def)
  have ev: "\<not> paused agents_grid" "grid agents_grid = [[[0], [1], []], [[], [], []]]"
    by (simp_all add: agents_grid_def)
  from agents_grid_tick(1) have r: "World2DGrid_update ex_hooks 1 agents_grid
                        = Inr (projr (World2DGrid_update ex_hooks 1 agents_grid))"
    by (cases "World2DGrid_update ex_hooks 1 agents_grid") simp_all
  from grid_correspondence_preserved [where w = agents_grid and h = ex_hooks and delta = 1
      and ?w4.0 = "projr (World2DGrid_update ex_hooks 1 agents_grid)"] ok loc loc' r
  have ok': "grid_ok (projr (World2DGrid_update ex_hooks 1 agents_grid))"
    by blast
  from grid_correspondence_preserved
      [where w = "projr (World2DGrid_update ex_hooks 1 agents_grid)"] ok'
  have "grid_correspondence (projr (World2DGrid_update ex_hooks 1 agents_grid))"
    by blast
  with ok loc loc' ev agents_grid_tick(1-3) ok' show ?thesis by blast
qed

text \<open>
  C1 as stated fails in three ways.  \<^verbatim>\<open>add_object\<close> does not look whether the object
  is already in the world: an object that was added twice is twice in the object list
  and twice in its cell, which is the correspondence as C1 states it; when it moves to
  another cell during \<^verbatim>\<open>update\<close>, one of the two entries stays behind in the old cell.
  \<^verbatim>\<open>process_agents\<close> takes the body of an agent out of its cell and puts it back after
  the agent was updated, and no other object: in \<open>push_grid\<close> the action of agent 0
  moves object 1, which stays in the cell it was in.  \<^verbatim>\<open>update\<close> does the same with
  each object in turn: in \<open>shove_grid\<close> the \<^verbatim>\<open>update\<close> of object 1 moves object 0,
  which was put into its cell before and stays there.
\<close>

theorem object_added_twice_in_two_cells:
  "objects dup_grid = [0, 0] \<and> grid dup_grid = [[[0, 0], []]]
   \<and> grid_correspondence dup_grid \<and> \<not> paused dup_grid
   \<and> \<not> isl (World2DGrid_update base_hooks 1 dup_grid)
   \<and> grid (projr (World2DGrid_update base_hooks 1 dup_grid)) = [[[0], [0]]]
   \<and> \<not> grid_correspondence (projr (World2DGrid_update base_hooks 1 dup_grid))
   \<and> grid_correspondence push_grid \<and> distinct (objects push_grid)
   \<and> \<not> isl (World2DGrid_process_agents meddling_hooks 1 push_grid)
   \<and> grid (projr (World2DGrid_process_agents meddling_hooks 1 push_grid)) = [[[0], [1], []]]
   \<and> obj_x (objs (st (projr (World2DGrid_process_agents meddling_hooks 1 push_grid))) 1) = 2
   \<and> \<not> grid_correspondence (projr (World2DGrid_process_agents meddling_hooks 1 push_grid))
   \<and> grid_correspondence shove_grid \<and> distinct (objects shove_grid) \<and> \<not> paused shove_grid
   \<and> \<not> isl (World2DGrid_update meddling_hooks 1 shove_grid)
   \<and> grid (projr (World2DGrid_update meddling_hooks 1 shove_grid)) = [[[0], [1], []]]
   \<and> obj_x (objs (st (projr (World2DGrid_update meddling_hooks 1 shove_grid))) 0) = 1
   \<and> \<not> grid_correspondence (projr (World2DGrid_update meddling_hooks 1 shove_grid))"
proof -
  have e: "dup_grid = \<lparr>st = store5, agents = [], dead_agents = [], objects = [0, 0],
      paused = False, trace = [], grid_width = 2, grid_height = 1, cell = 20, tor = False,
      grid = [[[0, 0], []]]\<rparr>"
    by (simp add: dup_grid_def store5_def run_simps numeral_2_eq_2)
  have a: "\<not> isl (World2DGrid_update base_hooks 1 dup_grid)"
    "grid (projr (World2DGrid_update base_hooks 1 dup_grid)) = [[[0], [0]]]"
    "objects (projr (World2DGrid_update base_hooks 1 dup_grid)) = [0, 0]"
    "obj_x (objs (st (projr (World2DGrid_update base_hooks 1 dup_grid))) 0) = 1"
    "obj_y (objs (st (projr (World2DGrid_update base_hooks 1 dup_grid))) 0) = 0"
    "grid_width (projr (World2DGrid_update base_hooks 1 dup_grid)) = 2"
    "grid_height (projr (World2DGrid_update base_hooks 1 dup_grid)) = 1"
    by (simp_all add: e store5_def run_simps)
  have b: "grid_correspondence dup_grid"
    by (simp add: e grid_correspondence_def cell_of_def store5_def run_simps
        numeral_2_eq_2 less_Suc_eq)
  have c: "\<not> grid_correspondence (projr (World2DGrid_update base_hooks 1 dup_grid))"
    by (simp add: grid_correspondence_def cell_of_def a obj_row_def obj_col_def
        py_round_def py_index_def numeral_2_eq_2 less_Suc_eq)
  have 1: "objects dup_grid = [0, 0] \<and> grid dup_grid = [[[0, 0], []]]
   \<and> grid_correspondence dup_grid \<and> \<not> paused dup_grid
   \<and> \<not> isl (World2DGrid_update base_hooks 1 dup_grid)
   \<and> grid (projr (World2DGrid_update base_hooks 1 dup_grid)) = [[[0], [0]]]
   \<and> \<not> grid_correspondence (projr (World2DGrid_update base_hooks 1 dup_grid))"
    using a b c by (simp add: e)
  have pa: "\<not> isl (World2DGrid_process_agents meddling_hooks 1 push_grid)"
    "grid (projr (World2DGrid_process_agents meddling_hooks 1 push_grid)) = [[[0], [1], []]]"
    "objects (projr (World2DGrid_process_agents meddling_hooks 1 push_grid)) = [0, 1]"
    "obj_x (objs (st (projr (World2DGrid_process_agents meddling_hooks 1 push_grid))) 1) = 2"
    "obj_y (objs (st (projr (World2DGrid_process_agents meddling_hooks 1 push_grid))) 1) = 0"
    "obj_x (objs (st (projr (World2DGrid_process_agents meddling_hooks 1 push_grid))) 0) = 0"
    "obj_y (objs (st (projr (World2DGrid_process_agents meddling_hooks 1 push_grid))) 0) = 0"
    "grid_width (projr (World2DGrid_process_agents meddling_hooks 1 push_grid)) = 3"
    "grid_height (projr (World2DGrid_process_agents meddling_hooks 1 push_grid)) = 1"
    by (simp_all add: push_grid_def store6_def meddling_hooks_def grid_process_agent_def
        Agent_update_def update_perceptions_def Object_set_agent_def Object_translate_def
        upd_agent_def run_simps)
  have pb: "grid_correspondence push_grid" "distinct (objects push_grid)"
    by (simp_all add: push_grid_def grid_correspondence_def cell_of_def store6_def
        Object_set_agent_def run_simps numeral_3_eq_3 less_Suc_eq)
  have pc: "\<not> grid_correspondence (projr (World2DGrid_process_agents meddling_hooks 1 push_grid))"
    by (auto simp add: grid_correspondence_def cell_of_def pa [unfolded One_nat_def]
        obj_row_def obj_col_def
        py_round_def py_index_def numeral_3_eq_3 less_Suc_eq)
  have sa: "\<not> isl (World2DGrid_update meddling_hooks 1 shove_grid)"
    "grid (projr (World2DGrid_update meddling_hooks 1 shove_grid)) = [[[0], [1], []]]"
    "objects (projr (World2DGrid_update meddling_hooks 1 shove_grid)) = [0, 1]"
    "obj_x (objs (st (projr (World2DGrid_update meddling_hooks 1 shove_grid))) 0) = 1"
    "obj_y (objs (st (projr (World2DGrid_update meddling_hooks 1 shove_grid))) 0) = 0"
    "obj_x (objs (st (projr (World2DGrid_update meddling_hooks 1 shove_grid))) 1) = 1"
    "obj_y (objs (st (projr (World2DGrid_update meddling_hooks 1 shove_grid))) 1) = 0"
    "grid_width (projr (World2DGrid_update meddling_hooks 1 shove_grid)) = 3"
    "grid_height (projr (World2DGrid_update meddling_hooks 1 shove_grid)) = 1"
    by (simp_all add: shove_grid_def store7_def meddling_hooks_def Object_translate_def
        run_simps)
  have sb: "grid_correspondence shove_grid" "distinct (objects shove_grid)"
    "\<not> paused shove_grid"
    by (simp_all add: shove_grid_def grid_correspondence_def cell_of_def store7_def
        run_simps numeral_3_eq_3 less_Suc_eq)
  have sc: "\<not> grid_correspondence (projr (World2DGrid_update meddling_hooks 1 shove_grid))"
    by (auto simp add: grid_correspondence_def cell_of_def sa [unfolded One_nat_def]
        obj_row_def obj_col_def
        py_round_def py_index_def numeral_3_eq_3 less_Suc_eq)
  from 1 pa pb pc sa sb sc show ?thesis by blast
qed

section \<open>A paused world\<close>



end
